theory Spec2Isabelle
  imports Main
begin

section \<open>The orchestration engine of sup (sup.go)\<close>

text \<open>
  The file embeds \<^verbatim>\<open>ResolvePath\<close>, \<^verbatim>\<open>addPublicKeySigner\<close> and
  \<^verbatim>\<open>(*Stackup).Run\<close> of \<^verbatim>\<open>sup.go\<close>.

  Everything \<^verbatim>\<open>Run\<close> calls outside \<^verbatim>\<open>sup.go\<close> (the operating system, the
  ssh library, the \<^verbatim>\<open>Client\<close> implementations, \<^verbatim>\<open>createTasks\<close>) is a field of
  the record \<open>World\<close>: the answer each call gives, as a function of its arguments.
  Every call is recorded as an \<open>event\<close> in the trace of the \<open>State\<close>, next
  to the one process-wide variable of the file, \<^verbatim>\<open>publicKeysSigners\<close>.
  The model describes the runs in which every call made returns; a connection, a
  copy or a \<^verbatim>\<open>Wait\<close> that blocks for ever is outside it.
\<close>

subsection \<open>Data\<close>

text \<open>
  An \<^verbatim>\<open>ssh.Signer\<close> and a \<^verbatim>\<open>*Command\<close> are opaque to \<^verbatim>\<open>Run\<close>: each
  is known by a name. An \<^verbatim>\<open>EnvList\<close> is only turned into a string, by
  \<^verbatim>\<open>AsExport\<close>.
\<close>

type_synonym signer = string
type_synonym EnvList = "(string \<times> string) list"
type_synonym Command = string

text \<open>
  Go errors: \<^verbatim>\<open>errors.New(msg)\<close> (and every error of a library, by its message),
  \<^verbatim>\<open>*ssh.ExitError\<close> with its \<^verbatim>\<open>ExitStatus()\<close>, \<^verbatim>\<open>errors.Wrap(err, msg)\<close>,
  and the one value \<^verbatim>\<open>io.EOF\<close>, which the code tells from every other error by
  identity (\<^verbatim>\<open>err != io.EOF\<close>): an error that only reads "EOF" is \<open>New ''EOF''\<close>,
  another value.
\<close>

datatype error = New string | ExitError int | Wrap error string | EOF

text \<open>Run-time panics of the Go code.\<close>

datatype panic = SliceBoundsOutOfRange | IntegerDivideByZero | NegativeRepeatCount

record Host =
  Hostname :: string
  HostUser :: string

record Network =
  Name :: string
  Hosts :: "Host list"
  Bastion :: "Host option"
  User :: string
  Password :: string
  IdentityFile :: string

record Stackup =
  debug :: bool
  prefix :: bool
  ignoreHostKey :: bool

text \<open>
  A \<^verbatim>\<open>Client\<close> is a pointer to a \<^verbatim>\<open>LocalhostClient\<close> or an \<^verbatim>\<open>SSHClient\<close>.
  The first argument stands for the pointer's identity: the bastion's client, or the
  client allocated by the goroutine of host number \<open>i\<close>. The other arguments are
  the struct fields \<^verbatim>\<open>Run\<close> sets: \<^verbatim>\<open>env\<close> for the local client;
  \<^verbatim>\<open>env, host, password, color, ignoreHostKey\<close> for the ssh client.
\<close>

datatype ref = BastionRef | HostRef nat

datatype Client =
    LocalhostClient ref string
  | SSHClient ref string Host string string bool

text \<open>
  Of a \<^verbatim>\<open>Task\<close>, \<^verbatim>\<open>Run\<close> reads \<^verbatim>\<open>Clients\<close> and \<^verbatim>\<open>Input\<close> (nil, or a
  reader, known by a name); \<open>Payload\<close> stands for the rest, which only the
  clients read.
\<close>

record Task =
  Payload :: string
  Clients :: "Client list"
  Input :: "string option"

text \<open>
  The goroutines \<^verbatim>\<open>Run\<close> starts while it runs a task, with the variables each
  closure captures: the two output copiers (client, prefix), the input copier (the
  task's input, the writers collected from the bound clients, and \<^verbatim>\<open>clients\<close>),
  the signal relay (the task's clients) and the waiter of a client.
\<close>

datatype goroutine =
    CopyStdout Client string
  | CopyStderr Client string
  | CopyStdin string "Client list" "Client list"
  | SignalRelay "Client list"
  | Waiter Client

datatype event =
    EvDial string
  | EvAgentSigners
  | EvReadFile string
  | EvParsePrivateKey string
  | EvParsePrivateKeyWithPassphrase string string
  | EvGlob string
  | EvWarning error string string
  | EvConnect Client
  | EvConnectWith Client Client
  | EvClose Client
  | EvCreateTasks Command
  | EvRun Client Task
  | EvGo goroutine
  | EvCopy string Client string
  | EvCopyInput string "Client list"
  | EvStderr error
  | EvStderrLine string error
  | EvWriteClose Client
  | EvSignal Client string
  | EvWait Client

record State =
  publicKeysSigners :: "signer list"
  trace :: "event list"

text \<open>
  The world. \<open>currentUser\<close> is the home directory \<^verbatim>\<open>user.Current()\<close> reports, or
  its error. \<open>dialUnix\<close> tells whether \<^verbatim>\<open>net.Dial("unix", path)\<close> succeeds and
  \<open>agentSigners\<close> is the list \<^verbatim>\<open>agent.Signers()\<close> returns (its error is
  dropped by the code). \<open>Colors\<close> is the palette, a variable of the package declared
  in another file. \<open>connectResult\<close>, \<open>connectWithResult\<close>, \<open>runResult\<close>,
  \<open>signalResult\<close> and \<open>waitResult\<close> are the errors (or nil) of the methods of
  a client, \<open>prefixOf\<close> is its \<^verbatim>\<open>Prefix()\<close>: the string and its visual length.
  \<open>copyResult\<close> and \<open>copyInputResult\<close> are the errors of \<^verbatim>\<open>io.Copy\<close>.
  \<open>connectRank\<close> and \<open>waitRank\<close> order concurrent goroutines: the time at
  which the connection of host \<open>i\<close> is over, and the time at which
  \<^verbatim>\<open>Wait\<close> returns for a client of a task.
\<close>

record World =
  currentUser :: "error + string"
  filepathJoin :: "string \<Rightarrow> string \<Rightarrow> string"
  readFile :: "string \<Rightarrow> error + string"
  parsePrivateKey :: "string \<Rightarrow> error + signer"
  parsePrivateKeyWithPassphrase :: "string \<Rightarrow> string \<Rightarrow> error + signer"
  getenv :: "string \<Rightarrow> string"
  dialUnix :: "string \<Rightarrow> bool"
  agentSigners :: "signer list"
  glob :: "string \<Rightarrow> string list"
  asExport :: "EnvList \<Rightarrow> string"
  Colors :: "string list"
  connectResult :: "Client \<Rightarrow> error option"
  connectWithResult :: "Client \<Rightarrow> Client \<Rightarrow> error option"
  connectRank :: "nat \<Rightarrow> nat"
  prefixOf :: "Client \<Rightarrow> string \<times> int"
  createTasks :: "Command \<Rightarrow> Client list \<Rightarrow> string \<Rightarrow> error + Task list"
  runResult :: "Client \<Rightarrow> Task \<Rightarrow> error option"
  copyResult :: "string \<Rightarrow> Client \<Rightarrow> error option"
  copyInputResult :: "string \<Rightarrow> error option"
  signalResult :: "Client \<Rightarrow> string \<Rightarrow> error option"
  waitResult :: "Client \<Rightarrow> Task \<Rightarrow> error option"
  waitRank :: "Task \<Rightarrow> Client \<Rightarrow> nat"

text \<open>
  How a call of \<^verbatim>\<open>Run\<close> ends: it returns (nil or an error), the process exits
  through \<^verbatim>\<open>os.Exit\<close> (\<open>Exited\<close> holds the argument of the call), a panic
  unwinds \<^verbatim>\<open>Run\<close> itself (deferred calls run), or a panic in a goroutine that
  \<^verbatim>\<open>Run\<close> started kills the process at once.
\<close>

datatype outcome =
    Returned "error option"
  | Exited int
  | Panicked panic
  | Crashed panic

datatype 'a step = Continue 'a State | Stop outcome State

text \<open>
  The status a process ends with on Unix when it calls \<^verbatim>\<open>os.Exit(code)\<close>: the
  low eight bits of the code, which is all the parent of the process is given.
\<close>

definition exitStatus :: "int \<Rightarrow> int" where
  "exitStatus code = code mod 256"

definition emit :: "event \<Rightarrow> State \<Rightarrow> State" where
  "emit e st = st\<lparr>trace := trace st @ [e]\<rparr>"

definition emits :: "event list \<Rightarrow> State \<Rightarrow> State" where
  "emits es st = st\<lparr>trace := trace st @ es\<rparr>"

definition HasPrefix :: "string \<Rightarrow> string \<Rightarrow> bool" where
  "HasPrefix s p = (length p \<le> length s \<and> take (length p) s = p)"

definition HasSuffix :: "string \<Rightarrow> string \<Rightarrow> bool" where
  "HasSuffix s p = (length p \<le> length s \<and> drop (length s - length p) s = p)"

subsection \<open>ResolvePath (lines 36-47)\<close>

text \<open>
  \<^verbatim>\<open>path[:2]\<close> panics when the string has fewer than two bytes; the empty string
  is returned before the slice is taken. \<^verbatim>\<open>user.Current()\<close> and
  \<^verbatim>\<open>filepath.Join\<close> are the world's.
\<close>

definition ResolvePath :: "World \<Rightarrow> string \<Rightarrow> panic + string" where
  "ResolvePath w path =
     (if path = [] then Inr []
      else if length path < 2 then Inl SliceBoundsOutOfRange
      else if take 2 path = ''~/'' then
        (case currentUser w of
           Inr homeDir \<Rightarrow> Inr (filepathJoin w homeDir (drop 2 path))
         | Inl err \<Rightarrow> Inr path)
      else Inr path)"

subsection \<open>addPublicKeySigner (lines 52-71)\<close>

definition appendSigner :: "signer \<Rightarrow> State \<Rightarrow> State" where
  "appendSigner s st = st\<lparr>publicKeysSigners := publicKeysSigners st @ [s]\<rparr>"

definition addPublicKeySigner ::
  "World \<Rightarrow> string \<Rightarrow> string \<Rightarrow> State \<Rightarrow> (error option) step" where
  "addPublicKeySigner w file password st =
     (case ResolvePath w file of
        Inl p \<Rightarrow> Stop (Panicked p) st
      | Inr path \<Rightarrow>
          let st1 = emit (EvReadFile path) st in
          (case readFile w path of
             Inl err \<Rightarrow> Continue (Some err) st1
           | Inr key \<Rightarrow>
               let st2 = emit (EvParsePrivateKey key) st1 in
               (case parsePrivateKey w key of
                  Inr signer \<Rightarrow> Continue None (appendSigner signer st2)
                | Inl err \<Rightarrow>
                    if password \<noteq> [] then
                      let st3 = emit (EvParsePrivateKeyWithPassphrase key password) st2 in
                      (case parsePrivateKeyWithPassphrase w key password of
                         Inl err2 \<Rightarrow> Continue (Some err2) st3
                       | Inr signer \<Rightarrow> Continue None (appendSigner signer st3))
                    else Continue (Some err) st2)))"

subsection \<open>Run: the signers (lines 83-104)\<close>

text \<open>
  The loop over the default key files; the error of \<^verbatim>\<open>addPublicKeySigner\<close> is
  dropped, a panic is not.
\<close>

fun addDefaultKeys :: "World \<Rightarrow> string \<Rightarrow> string list \<Rightarrow> State \<Rightarrow> unit step" where
  "addDefaultKeys w password [] st = Continue () st"
| "addDefaultKeys w password (f # files) st =
     (if HasSuffix f ''.pub'' then addDefaultKeys w password files st
      else
        (case addPublicKeySigner w f password st of
           Stop out st' \<Rightarrow> Stop out st'
         | Continue err st' \<Rightarrow> addDefaultKeys w password files st'))"

definition resolveSigners :: "World \<Rightarrow> Network \<Rightarrow> State \<Rightarrow> unit step" where
  "resolveSigners w network st =
     (let sock = getenv w ''SSH_AUTH_SOCK'';
          st1 = emit (EvDial sock) st;
          st2 = (if dialUnix w sock
                 then (emit EvAgentSigners st1)\<lparr>publicKeysSigners := agentSigners w\<rparr>
                 else st1)
      in if IdentityFile network \<noteq> [] then
           (case addPublicKeySigner w (IdentityFile network) (Password network) st2 of
              Stop out st3 \<Rightarrow> Stop out st3
            | Continue (Some err) st3 \<Rightarrow>
                Continue () (emit (EvWarning err (Name network) (IdentityFile network)) st3)
            | Continue None st3 \<Rightarrow> Continue () st3)
         else
           (let pat = getenv w ''HOME'' @ ''/.ssh/id_*'' in
            addDefaultKeys w (Password network) (glob w pat) (emit (EvGlob pat) st2)))"

subsection \<open>Run: the bastion (lines 107-117)\<close>

definition connectBastion :: "World \<Rightarrow> Stackup \<Rightarrow> Network \<Rightarrow> State \<Rightarrow> (Client option) step" where
  "connectBastion w stk network st =
     (case Bastion network of
        None \<Rightarrow> Continue None st
      | Some b \<Rightarrow>
          let bastion = SSHClient BastionRef [] b (Password network) [] (ignoreHostKey stk);
              st1 = emit (EvConnect bastion) st
          in (case connectResult w bastion of
                Some err \<Rightarrow> Stop (Returned (Some (Wrap err ''connecting to bastion failed''))) st1
              | None \<Rightarrow> Continue (Some bastion) st1))"

subsection \<open>Run: one goroutine per host (lines 123-170)\<close>

text \<open>
  What the goroutine of a host leaves behind: a client on \<^verbatim>\<open>clientCh\<close>, an error
  on \<^verbatim>\<open>errCh\<close>, or a panic (\<^verbatim>\<open>i%len(Colors)\<close> with an empty palette).
  \<^verbatim>\<open>host.User = network.User\<close> is kept in the host the ssh client holds.
  \<open>CHR 0x22\<close> is the double quote of \<^verbatim>\<open>export SUP_HOST="..."\<close>.
\<close>

datatype sent = ToClientCh Client | ToErrCh error | GoPanic panic


definition connectHost ::
  "World \<Rightarrow> Stackup \<Rightarrow> Network \<Rightarrow> string \<Rightarrow> Client option \<Rightarrow> nat \<Rightarrow> Host \<Rightarrow> event list \<times> sent" where
  "connectHost w stk network env bastion i host =
     (if Hostname host = ''localhost'' \<or> HasPrefix (Hostname host) ''127.'' then
        (let local = LocalhostClient (HostRef i)
                       (env @ ''export SUP_HOST='' @ [CHR 0x22] @ Hostname host @ [CHR 0x22] @ '';'') in
         case connectResult w local of
           Some err \<Rightarrow> ([EvConnect local], ToErrCh (Wrap err ''connecting to localhost failed''))
         | None \<Rightarrow> ([EvConnect local], ToClientCh local))
      else
        (let host' = (if HostUser host = [] then host\<lparr>HostUser := User network\<rparr> else host) in
         if Colors w = [] then ([], GoPanic IntegerDivideByZero)
         else
           (let remote = SSHClient (HostRef i) env host' (Password network)
                           (Colors w ! (i mod length (Colors w))) (ignoreHostKey stk)
            in case bastion of
                 Some b \<Rightarrow>
                   (case connectWithResult w remote b of
                      Some err \<Rightarrow>
                        ([EvConnectWith remote b],
                         ToErrCh (Wrap err ''connecting to remote host through bastion failed''))
                    | None \<Rightarrow> ([EvConnectWith remote b], ToClientCh remote))
               | None \<Rightarrow>
                   (case connectResult w remote of
                      Some err \<Rightarrow>
                        ([EvConnect remote], ToErrCh (Wrap err ''connecting to remote host failed''))
                    | None \<Rightarrow> ([EvConnect remote], ToClientCh remote)))))"

text \<open>
  The goroutines run concurrently. The model runs them one after the other in the
  order in which they finish, and so fills the two channels in that order.
\<close>

fun hostGoroutines ::
  "World \<Rightarrow> Stackup \<Rightarrow> Network \<Rightarrow> string \<Rightarrow> Client option \<Rightarrow> (nat \<times> Host) list \<Rightarrow> State
     \<Rightarrow> (Client list \<times> error list) step" where
  "hostGoroutines w stk network env bastion [] st = Continue ([], []) st"
| "hostGoroutines w stk network env bastion ((i, host) # rest) st =
     (case connectHost w stk network env bastion i host of
        (evs, GoPanic p) \<Rightarrow> Stop (Crashed p) (emits evs st)
      | (evs, ToClientCh c) \<Rightarrow>
          (case hostGoroutines w stk network env bastion rest (emits evs st) of
             Continue (clientCh, errCh) st' \<Rightarrow> Continue (c # clientCh, errCh) st'
           | Stop out st' \<Rightarrow> Stop out st')
      | (evs, ToErrCh e) \<Rightarrow>
          (case hostGoroutines w stk network env bastion rest (emits evs st) of
             Continue (clientCh, errCh) st' \<Rightarrow> Continue (clientCh, e # errCh) st'
           | Stop out st' \<Rightarrow> Stop out st'))"

text \<open>
  The order of completion is the world's: the goroutine of host \<open>i\<close> finishes at
  time \<open>connectRank w i\<close> (ties in the order of the hosts).
\<close>

definition completionOrder :: "World \<Rightarrow> Network \<Rightarrow> (nat \<times> Host) list" where
  "completionOrder w network =
     sort_key (\<lambda>ih. connectRank w (fst ih)) (enumerate 0 (Hosts network))"

definition connectHosts ::
  "World \<Rightarrow> Stackup \<Rightarrow> Network \<Rightarrow> string \<Rightarrow> Client option \<Rightarrow> State
     \<Rightarrow> (Client list \<times> error list) step" where
  "connectHosts w stk network env bastion st =
     hostGoroutines w stk network env bastion (completionOrder w network) st"

subsection \<open>Run: draining the client channel (lines 172-183)\<close>

fun drainClients ::
  "World \<Rightarrow> Client list \<Rightarrow> int \<Rightarrow> Client list \<Rightarrow> Client list
     \<Rightarrow> int \<times> Client list \<times> Client list" where
  "drainClients w [] maxLen clients deferred = (maxLen, clients, deferred)"
| "drainClients w (client # rest) maxLen clients deferred =
     (let deferred' = (case client of
                         SSHClient r e h p c k \<Rightarrow> deferred @ [client]
                       | LocalhostClient r e \<Rightarrow> deferred);
          prefixLen = snd (prefixOf w client);
          maxLen' = (if prefixLen > maxLen then prefixLen else maxLen)
      in drainClients w rest maxLen' (clients @ [client]) deferred')"

subsection \<open>Run: the prefix of a client (lines 203-210 and 286-293)\<close>

text \<open>\<^verbatim>\<open>strings.Repeat\<close> panics on a negative count.\<close>

definition paddedPrefix :: "World \<Rightarrow> Stackup \<Rightarrow> int \<Rightarrow> Client \<Rightarrow> panic + string" where
  "paddedPrefix w stk maxLen c =
     (if prefix stk then
        (let (p, prefixLen) = prefixOf w c in
         if int (length p) < maxLen then
           (if maxLen - prefixLen < 0 then Inl NegativeRepeatCount
            else Inr (replicate (nat (maxLen - prefixLen)) CHR '' '' @ p))
         else Inr p)
      else Inr [])"

subsection \<open>Run: starting a task on its clients (lines 202-240)\<close>

text \<open>The result is \<^verbatim>\<open>writers\<close>: the standard input of every client started.\<close>

fun startClients ::
  "World \<Rightarrow> Stackup \<Rightarrow> int \<Rightarrow> Task \<Rightarrow> Client list \<Rightarrow> State \<Rightarrow> (Client list) step" where
  "startClients w stk maxLen task [] st = Continue [] st"
| "startClients w stk maxLen task (c # cs) st =
     (case paddedPrefix w stk maxLen c of
        Inl p \<Rightarrow> Stop (Panicked p) st
      | Inr pre \<Rightarrow>
          let st1 = emit (EvRun c task) st in
          (case runResult w c task of
             Some err \<Rightarrow> Stop (Returned (Some (Wrap err (pre @ ''task failed'')))) st1
           | None \<Rightarrow>
               (case startClients w stk maxLen task cs
                       (emit (EvGo (CopyStderr c pre)) (emit (EvGo (CopyStdout c pre)) st1)) of
                  Continue writers st' \<Rightarrow> Continue (c # writers) st'
                | Stop out st' \<Rightarrow> Stop out st')))"

subsection \<open>The bodies of the goroutines of a task\<close>

text \<open>Lines 219-227 and 231-237: \<open>stream\<close> is \<^verbatim>\<open>STDOUT\<close> or \<^verbatim>\<open>STDERR\<close>.\<close>

definition copyOutput :: "World \<Rightarrow> string \<Rightarrow> Client \<Rightarrow> string \<Rightarrow> event list" where
  "copyOutput w stream c pre =
     EvCopy stream c pre #
     (case copyResult w stream c of
        None \<Rightarrow> []
      | Some err \<Rightarrow>
          if err \<noteq> EOF then [EvStderr (Wrap err (pre @ ''reading '' @ stream @ '' failed''))]
          else [])"

text \<open>Lines 244-254.\<close>

definition copyStdin :: "World \<Rightarrow> string \<Rightarrow> Client list \<Rightarrow> Client list \<Rightarrow> event list" where
  "copyStdin w inp writers clients =
     EvCopyInput inp writers #
     (case copyInputResult w inp of
        None \<Rightarrow> []
      | Some err \<Rightarrow> if err \<noteq> EOF then [EvStderr (Wrap err ''copying STDIN failed'')] else [])
     @ map EvWriteClose clients"

text \<open>Lines 260-275, for the signals that arrive while the task runs.\<close>

definition relaySignal :: "World \<Rightarrow> Client list \<Rightarrow> string \<Rightarrow> event list" where
  "relaySignal w taskClients sig =
     concat (map (\<lambda>c. EvSignal c sig #
                       (case signalResult w c sig of
                          None \<Rightarrow> []
                        | Some err \<Rightarrow> [EvStderr (Wrap err ''sending signal failed'')]))
                 taskClients)"

definition relaySignals :: "World \<Rightarrow> Client list \<Rightarrow> string list \<Rightarrow> event list" where
  "relaySignals w taskClients sigs = concat (map (relaySignal w taskClients) sigs)"

text \<open>
  Lines 283-304: the events of the waiter of \<open>c\<close>, and how it ends the process, if
  it does.
\<close>

definition waiter ::
  "World \<Rightarrow> Stackup \<Rightarrow> int \<Rightarrow> Task \<Rightarrow> Client \<Rightarrow> event list \<times> outcome option" where
  "waiter w stk maxLen task c =
     (case waitResult w c task of
        None \<Rightarrow> ([EvWait c], None)
      | Some err \<Rightarrow>
          (case paddedPrefix w stk maxLen c of
             Inl p \<Rightarrow> ([EvWait c], Some (Crashed p))
           | Inr pre \<Rightarrow>
               (case err of
                  ExitError status \<Rightarrow>
                    if status \<noteq> 15 then ([EvWait c, EvStderrLine pre err], Some (Exited status))
                    else ([EvWait c, EvStderrLine pre err], Some (Exited 1))
                | New m \<Rightarrow> ([EvWait c, EvStderrLine pre err], Some (Exited 1))
                | Wrap e m \<Rightarrow> ([EvWait c, EvStderrLine pre err], Some (Exited 1))
                | EOF \<Rightarrow> ([EvWait c, EvStderrLine pre err], Some (Exited 1)))))"

text \<open>
  The waiters run concurrently; the first one that fails ends the process. The model
  runs them in the order in which \<^verbatim>\<open>Wait\<close> returns, \<open>waitOrder\<close>: by
  \<open>waitRank\<close>, ties in the order of the task's clients.
\<close>

fun awaitClients ::
  "World \<Rightarrow> Stackup \<Rightarrow> int \<Rightarrow> Task \<Rightarrow> Client list \<Rightarrow> State \<Rightarrow> unit step" where
  "awaitClients w stk maxLen task [] st = Continue () st"
| "awaitClients w stk maxLen task (c # cs) st =
     (case waiter w stk maxLen task c of
        (evs, Some out) \<Rightarrow> Stop out (emits evs st)
      | (evs, None) \<Rightarrow> awaitClients w stk maxLen task cs (emits evs st))"

definition waitOrder :: "World \<Rightarrow> Task \<Rightarrow> Client list" where
  "waitOrder w task = sort_key (waitRank w task) (Clients task)"

subsection \<open>Run: one task (lines 197-313)\<close>

text \<open>
  The trace holds the calls of \<^verbatim>\<open>Run\<close>'s own goroutine, the start of every
  goroutine (\<open>EvGo\<close>) and, since they decide how the task ends, the events of the
  waiters. What the copiers and the relay do is \<open>copyOutput\<close>, \<open>copyStdin\<close> and
  \<open>relaySignals\<close>; the output copiers have finished when the waiters start, the
  input copier is waited for nowhere.
\<close>

definition runTask ::
  "World \<Rightarrow> Stackup \<Rightarrow> int \<Rightarrow> Client list \<Rightarrow> Task \<Rightarrow> State \<Rightarrow> unit step" where
  "runTask w stk maxLen clients task st =
     (case startClients w stk maxLen task (Clients task) st of
        Stop out st1 \<Rightarrow> Stop out st1
      | Continue writers st1 \<Rightarrow>
          let st2 = (case Input task of
                       None \<Rightarrow> st1
                     | Some inp \<Rightarrow> emit (EvGo (CopyStdin inp writers clients)) st1);
              st3 = emit (EvGo (SignalRelay (Clients task))) st2;
              st4 = emits (map (\<lambda>c. EvGo (Waiter c)) (Clients task)) st3
          in awaitClients w stk maxLen task (waitOrder w task) st4)"

fun runTasks ::
  "World \<Rightarrow> Stackup \<Rightarrow> int \<Rightarrow> Client list \<Rightarrow> Task list \<Rightarrow> State \<Rightarrow> unit step" where
  "runTasks w stk maxLen clients [] st = Continue () st"
| "runTasks w stk maxLen clients (task # tasks) st =
     (case runTask w stk maxLen clients task st of
        Stop out st' \<Rightarrow> Stop out st'
      | Continue u st' \<Rightarrow> runTasks w stk maxLen clients tasks st')"

fun runCommands ::
  "World \<Rightarrow> Stackup \<Rightarrow> int \<Rightarrow> Client list \<Rightarrow> string \<Rightarrow> Command list \<Rightarrow> State \<Rightarrow> unit step" where
  "runCommands w stk maxLen clients env [] st = Continue () st"
| "runCommands w stk maxLen clients env (cmd # cmds) st =
     (let st1 = emit (EvCreateTasks cmd) st in
      case createTasks w cmd clients env of
        Inl err \<Rightarrow> Stop (Returned (Some (Wrap err ''creating task failed''))) st1
      | Inr tasks \<Rightarrow>
          (case runTasks w stk maxLen clients tasks st1 of
             Stop out st2 \<Rightarrow> Stop out st2
           | Continue u st2 \<Rightarrow> runCommands w stk maxLen clients env cmds st2))"

subsection \<open>Run (lines 76-317)\<close>

text \<open>
  The deferred \<^verbatim>\<open>remote.Close()\<close> calls run, last one first, when \<^verbatim>\<open>Run\<close>
  returns or panics; \<^verbatim>\<open>os.Exit\<close> and a panic in another goroutine skip them.
\<close>

definition finish :: "Client list \<Rightarrow> unit step \<Rightarrow> outcome \<times> State" where
  "finish deferred r =
     (case r of
        Continue u st \<Rightarrow> (Returned None, emits (map EvClose (rev deferred)) st)
      | Stop (Returned e) st \<Rightarrow> (Returned e, emits (map EvClose (rev deferred)) st)
      | Stop (Panicked p) st \<Rightarrow> (Panicked p, emits (map EvClose (rev deferred)) st)
      | Stop (Exited n) st \<Rightarrow> (Exited n, st)
      | Stop (Crashed p) st \<Rightarrow> (Crashed p, st))"

definition Run ::
  "World \<Rightarrow> Stackup \<Rightarrow> Network \<Rightarrow> EnvList \<Rightarrow> Command list \<Rightarrow> State \<Rightarrow> outcome \<times> State" where
  "Run w stk network envVars commands st =
     (if commands = [] then (Returned (Some (New ''no commands to be run'')), st)
      else
        (let env = asExport w envVars in
         case resolveSigners w network st of
           Stop out st1 \<Rightarrow> (out, st1)
         | Continue u st1 \<Rightarrow>
             (case connectBastion w stk network st1 of
                Stop out st2 \<Rightarrow> (out, st2)
              | Continue bastion st2 \<Rightarrow>
                  (case connectHosts w stk network env bastion st2 of
                     Stop out st3 \<Rightarrow> (out, st3)
                   | Continue (clientCh, errCh) st3 \<Rightarrow>
                       (case drainClients w clientCh 0 [] [] of
                          (maxLen, clients, deferred) \<Rightarrow>
                            finish deferred
                              (case errCh of
                                 err # errs \<Rightarrow>
                                   Stop (Returned (Some (Wrap err ''connecting to clients failed''))) st3
                               | [] \<Rightarrow> runCommands w stk maxLen clients env commands st3))))))"

section \<open>Observing a run\<close>

text \<open>The state a step ends in, and the events a step added to the trace.\<close>

fun stateOf :: "'a step \<Rightarrow> State" where
  "stateOf (Continue x st) = st"
| "stateOf (Stop out st) = st"

definition newEvents :: "State \<Rightarrow> State \<Rightarrow> event list" where
  "newEvents st st' = drop (length (trace st)) (trace st')"

text \<open>
  Kinds of events: the warning of line 93; a connection attempt to a host (every
  \<^verbatim>\<open>Connect\<close> and \<^verbatim>\<open>ConnectWith\<close> but the bastion's own); everything
  that happens from \<^verbatim>\<open>createTasks\<close> on.
\<close>

fun isWarning :: "event \<Rightarrow> bool" where
  "isWarning (EvWarning e n f) = True"
| "isWarning ev = False"

fun clientRef :: "Client \<Rightarrow> ref" where
  "clientRef (LocalhostClient r e) = r"
| "clientRef (SSHClient r e h p c k) = r"

fun isSSHClient :: "Client \<Rightarrow> bool" where
  "isSSHClient (SSHClient r e h p c k) = True"
| "isSSHClient (LocalhostClient r e) = False"

fun isHostConnect :: "event \<Rightarrow> bool" where
  "isHostConnect (EvConnect c) = (clientRef c \<noteq> BastionRef)"
| "isHostConnect (EvConnectWith c b) = True"
| "isHostConnect ev = False"

fun isTaskEvent :: "event \<Rightarrow> bool" where
  "isTaskEvent (EvCreateTasks c) = True"
| "isTaskEvent (EvRun c t) = True"
| "isTaskEvent (EvGo g) = True"
| "isTaskEvent (EvCopy s c p) = True"
| "isTaskEvent (EvCopyInput i ws) = True"
| "isTaskEvent (EvStderr e) = True"
| "isTaskEvent (EvStderrLine p e) = True"
| "isTaskEvent (EvWriteClose c) = True"
| "isTaskEvent (EvSignal c s) = True"
| "isTaskEvent (EvWait c) = True"
| "isTaskEvent ev = False"

text \<open>
  How the parse of a key file ends in \<^verbatim>\<open>addPublicKeySigner\<close> (lines 58-68): with
  the signer of the first parse, or of the parse with the passphrase when the first
  one failed and the password is not empty, or with the error of the parse made last.
\<close>

definition parseOutcome :: "World \<Rightarrow> string \<Rightarrow> string \<Rightarrow> error + signer" where
  "parseOutcome w key password =
     (case parsePrivateKey w key of
        Inr signer \<Rightarrow> Inr signer
      | Inl err \<Rightarrow>
          if password \<noteq> [] then parsePrivateKeyWithPassphrase w key password else Inl err)"

section \<open>A world to evaluate the model in\<close>

text \<open>
  An agent that offers one key. The identity file \<^verbatim>\<open>~/.ssh/deploy\<close> holds a key
  encrypted under the passphrase \<^verbatim>\<open>secret\<close>. Hosts \<^verbatim>\<open>gate\<close> and \<^verbatim>\<open>down\<close>
  refuse connections. The prefix of a client is built the way the ssh client of sup
  builds it: colour, \<^verbatim>\<open>user@host | \<close>, reset; the length reported is that of
  the text without the escape codes. The command run on \<^verbatim>\<open>worker1\<close> exits with status 2
  (15 when it kills itself with SIGTERM; for the command \<^verbatim>\<open>exit 271\<close> the server
  reports the status 271). Every command makes one task, bound to all the clients; the
  task of \<^verbatim>\<open>cat\<close> is bound to the ssh clients only.
\<close>

definition ResetColor :: string where
  "ResetColor = CHR 0x1B # ''[0m''"

definition demoPrefix :: "Client \<Rightarrow> string \<times> int" where
  "demoPrefix c =
     (case c of
        LocalhostClient r e \<Rightarrow> (ResetColor @ ''u@localhost | '', 14)
      | SSHClient r e h p col k \<Rightarrow>
          (col @ HostUser h @ ''@'' @ Hostname h @ '' | '' @ ResetColor,
           int (length (HostUser h @ ''@'' @ Hostname h @ '' | ''))))"

definition demoConnect :: "Client \<Rightarrow> error option" where
  "demoConnect c =
     (case c of
        LocalhostClient r e \<Rightarrow> None
      | SSHClient r e h p col k \<Rightarrow>
          if Hostname h = ''gate'' \<or> Hostname h = ''down''
          then Some (New ''dial tcp: connection refused'') else None)"

definition demoWait :: "Client \<Rightarrow> Task \<Rightarrow> error option" where
  "demoWait c t =
     (case c of
        LocalhostClient r e \<Rightarrow> None
      | SSHClient r e h p col k \<Rightarrow>
          if Hostname h = ''worker1''
          then Some (ExitError (if Payload t = ''kill -TERM $$'' then 15
                                else if Payload t = ''exit 271'' then 271 else 2))
          else None)"

definition demoWorld :: World where
  "demoWorld = \<lparr>
     currentUser = Inr ''/home/u'',
     filepathJoin = (\<lambda>a b. a @ ''/'' @ b),
     readFile = (\<lambda>p. if p = ''/home/u/.ssh/deploy'' then Inr ''ENCRYPTED KEY''
                      else Inl (New ''no such file or directory'')),
     parsePrivateKey = (\<lambda>k. Inl (New ''ssh: this private key is passphrase protected'')),
     parsePrivateKeyWithPassphrase =
       (\<lambda>k pw. if k = ''ENCRYPTED KEY'' \<and> pw = ''secret'' then Inr ''deploy key''
                else Inl (New ''x509: decryption password incorrect'')),
     getenv = (\<lambda>v. if v = ''SSH_AUTH_SOCK'' then ''/tmp/agent.sock''
                    else if v = ''HOME'' then ''/home/u'' else []),
     dialUnix = (\<lambda>p. p = ''/tmp/agent.sock''),
     agentSigners = [''agent key''],
     glob = (\<lambda>p. []),
     asExport = (\<lambda>vars. []),
     Colors = [CHR 0x1B # ''[32m'', CHR 0x1B # ''[33m''],
     connectResult = demoConnect,
     connectWithResult = (\<lambda>c b. None),
     connectRank = (\<lambda>i. i),
     prefixOf = demoPrefix,
     createTasks = (\<lambda>cmd clients env.
        Inr [\<lparr>Payload = cmd,
              Clients = (if cmd = ''cat'' then filter isSSHClient clients else clients),
              Input = Some ''stdin''\<rparr>]),
     runResult = (\<lambda>c t. None),
     copyResult = (\<lambda>s c. None),
     copyInputResult = (\<lambda>i. Some EOF),
     signalResult = (\<lambda>c s. None),
     waitResult = demoWait,
     waitRank = (\<lambda>t c. 0)
   \<rparr>"

definition demoStk :: Stackup where
  "demoStk = \<lparr>debug = False, prefix = True, ignoreHostKey = False\<rparr>"

definition demoNetwork :: Network where
  "demoNetwork = \<lparr>
     Name = ''production'',
     Hosts = [\<lparr>Hostname = ''localhost'', HostUser = []\<rparr>, \<lparr>Hostname = ''worker1'', HostUser = []\<rparr>],
     Bastion = None,
     User = ''deploy'',
     Password = ''secret'',
     IdentityFile = ''~/.ssh/deploy''
   \<rparr>"

definition bastionNetwork :: Network where
  "bastionNetwork = demoNetwork\<lparr>Bastion := Some \<lparr>Hostname = ''gate'', HostUser = ''deploy''\<rparr>\<rparr>"

definition downNetwork :: Network where
  "downNetwork = demoNetwork\<lparr>Hosts :=
     [\<lparr>Hostname = ''localhost'', HostUser = []\<rparr>, \<lparr>Hostname = ''down'', HostUser = []\<rparr>,
      \<lparr>Hostname = ''worker1'', HostUser = []\<rparr>]\<rparr>"

definition st0 :: State where
  "st0 = \<lparr>publicKeysSigners = [''stale key''], trace = []\<rparr>"

definition demoLocal :: Client where
  "demoLocal = LocalhostClient (HostRef 0)
                 (''export SUP_HOST='' @ [CHR 0x22] @ ''localhost'' @ [CHR 0x22] @ '';'')"

definition demoRemote :: Client where
  "demoRemote = SSHClient (HostRef 1) [] \<lparr>Hostname = ''worker1'', HostUser = ''deploy''\<rparr>
                  ''secret'' (CHR 0x1B # ''[33m'') False"

definition demoTask :: "string \<Rightarrow> Client list \<Rightarrow> Task" where
  "demoTask cmd cs = \<lparr>Payload = cmd, Clients = cs, Input = Some ''stdin''\<rparr>"

lemmas demo_defs = demoWorld_def demoNetwork_def demoStk_def demoLocal_def demoRemote_def
  demoConnect_def demoPrefix_def demoWait_def demoTask_def st0_def ResetColor_def
  bastionNetwork_def downNetwork_def

section \<open>Properties\<close>

subsection \<open>The state\<close>

lemma trace_emit [simp]: "trace (emit e st) = trace st @ [e]"
  by (simp add: emit_def)

lemma signers_emit [simp]: "publicKeysSigners (emit e st) = publicKeysSigners st"
  by (simp add: emit_def)

lemma trace_emits [simp]: "trace (emits es st) = trace st @ es"
  by (simp add: emits_def)

lemma signers_emits [simp]: "publicKeysSigners (emits es st) = publicKeysSigners st"
  by (simp add: emits_def)

lemma trace_appendSigner [simp]: "trace (appendSigner s st) = trace st"
  by (simp add: appendSigner_def)

lemma signers_appendSigner [simp]: "publicKeysSigners (appendSigner s st) = publicKeysSigners st @ [s]"
  by (simp add: appendSigner_def)

subsection \<open>The empty command list\<close>

text \<open>
  C9. For every network and environment, \<^verbatim>\<open>Run\<close> with an empty command list
  returns the error "no commands to be run" and leaves the state as it was: the list
  of signers is unchanged and no call was made (no signer resolution, no connection
  attempt, no task).
\<close>

theorem Run_no_commands:
  "Run w stk network envVars [] st = (Returned (Some (New ''no commands to be run'')), st)"
  by (simp add: Run_def)

subsection \<open>ResolvePath\<close>

lemma ResolvePath_empty: "ResolvePath w [] = Inr []"
  by (simp add: ResolvePath_def)

lemma ResolvePath_two_bytes:
  "2 \<le> length path \<Longrightarrow>
   ResolvePath w path =
     Inr (if take 2 path = ''~/''
          then (case currentUser w of Inr homeDir \<Rightarrow> filepathJoin w homeDir (drop 2 path)
                | Inl err \<Rightarrow> path)
          else path)"
  by (auto simp: ResolvePath_def split: sum.splits)

text \<open>
  C10. \<^verbatim>\<open>ResolvePath\<close> is not total: on the one-byte path \<^verbatim>\<open>~\<close> the slice
  \<^verbatim>\<open>path[:2]\<close> is out of range and the call panics.
\<close>

theorem ResolvePath_one_byte_panics: "ResolvePath w ''~'' = Inl SliceBoundsOutOfRange"
  by (simp add: ResolvePath_def)

subsection \<open>The signers\<close>

lemma demo_resolvePath: "ResolvePath demoWorld ''~/.ssh/deploy'' = Inr ''/home/u/.ssh/deploy''"
  by (simp add: ResolvePath_def demoWorld_def)

lemma demo_readFile: "readFile demoWorld ''/home/u/.ssh/deploy'' = Inr ''ENCRYPTED KEY''"
  by (simp add: demoWorld_def)

lemma demo_parse:
  "parsePrivateKey demoWorld ''ENCRYPTED KEY'' = Inl (New ''ssh: this private key is passphrase protected'')"
  by (simp add: demoWorld_def)

lemma addPublicKeySigner_parsed:
  assumes "ResolvePath w file = Inr path" "readFile w path = Inr key"
  obtains st' evs where
    "addPublicKeySigner w file password st =
       Continue (case parseOutcome w key password of Inr s \<Rightarrow> None | Inl e \<Rightarrow> Some e) st'"
    "publicKeysSigners st' =
       (case parseOutcome w key password of
          Inr s \<Rightarrow> publicKeysSigners st @ [s]
        | Inl e \<Rightarrow> publicKeysSigners st)"
    "trace st' = trace st @ evs"
    "filter isWarning evs = []"
proof (cases "parsePrivateKey w key")
  case (Inr s)
  show ?thesis
    by (rule that [of "appendSigner s (emit (EvParsePrivateKey key) (emit (EvReadFile path) st))"
                      "[EvReadFile path, EvParsePrivateKey key]"])
       (simp_all add: addPublicKeySigner_def parseOutcome_def assms Inr)
next
  case (Inl e)
  show ?thesis
  proof (cases "password = []")
    case True
    show ?thesis
      by (rule that [of "emit (EvParsePrivateKey key) (emit (EvReadFile path) st)"
                        "[EvReadFile path, EvParsePrivateKey key]"])
         (simp_all add: addPublicKeySigner_def parseOutcome_def assms Inl True)
  next
    case False
    let ?st3 = "emit (EvParsePrivateKeyWithPassphrase key password)
                  (emit (EvParsePrivateKey key) (emit (EvReadFile path) st))"
    let ?evs = "[EvReadFile path, EvParsePrivateKey key, EvParsePrivateKeyWithPassphrase key password]"
    show ?thesis
    proof (cases "parsePrivateKeyWithPassphrase w key password")
      case (Inl e2)
      show ?thesis
        by (rule that [of ?st3 ?evs])
           (simp_all add: addPublicKeySigner_def parseOutcome_def assms \<open>parsePrivateKey w key = Inl e\<close> False Inl)
    next
      case (Inr s)
      show ?thesis
        by (rule that [of "appendSigner s ?st3" ?evs])
           (simp_all add: addPublicKeySigner_def parseOutcome_def assms \<open>parsePrivateKey w key = Inl e\<close> False Inr)
    qed
  qed
qed

text \<open>
  What a call adds to the signers does not depend on the state it starts from, nor
  does the way it ends.
\<close>

lemma addPublicKeySigner_frame:
  "\<exists>added.
     (\<forall>st. \<exists>out st'. addPublicKeySigner w file password st = Stop out st' \<and>
                      publicKeysSigners st' = publicKeysSigners st @ added) \<or>
     (\<forall>st. \<exists>e st'. addPublicKeySigner w file password st = Continue e st' \<and>
                    publicKeysSigners st' = publicKeysSigners st @ added)"
proof (cases "ResolvePath w file")
  case (Inl p)
  then have "\<forall>st. \<exists>out st'. addPublicKeySigner w file password st = Stop out st' \<and>
                      publicKeysSigners st' = publicKeysSigners st @ []"
    by (simp add: addPublicKeySigner_def)
  then show ?thesis by blast
next
  case (Inr path)
  note rp = Inr
  show ?thesis
  proof (cases "readFile w path")
    case (Inl e)
    then have "\<forall>st. \<exists>e st'. addPublicKeySigner w file password st = Continue e st' \<and>
                    publicKeysSigners st' = publicKeysSigners st @ []"
      using rp by (simp add: addPublicKeySigner_def)
    then show ?thesis by blast
  next
    case (Inr key)
    have "\<forall>st. \<exists>e st'. addPublicKeySigner w file password st = Continue e st' \<and>
                    publicKeysSigners st' =
                      publicKeysSigners st @
                        (case parseOutcome w key password of Inr s \<Rightarrow> [s] | Inl e \<Rightarrow> [])"
    proof
      fix st
      obtain st' evs where
        "addPublicKeySigner w file password st =
           Continue (case parseOutcome w key password of Inr s \<Rightarrow> None | Inl e \<Rightarrow> Some e) st'"
        "publicKeysSigners st' =
           (case parseOutcome w key password of
              Inr s \<Rightarrow> publicKeysSigners st @ [s]
            | Inl e \<Rightarrow> publicKeysSigners st)"
        "trace st' = trace st @ evs" "filter isWarning evs = []"
        by (rule addPublicKeySigner_parsed [OF rp Inr, of password st])
      then show "\<exists>e st'. addPublicKeySigner w file password st = Continue e st' \<and>
                    publicKeysSigners st' =
                      publicKeysSigners st @
                        (case parseOutcome w key password of Inr s \<Rightarrow> [s] | Inl e \<Rightarrow> [])"
        by (cases "parseOutcome w key password") auto
    qed
    then show ?thesis by blast
  qed
qed

lemma addDefaultKeys_frame:
  "\<exists>added. \<forall>st. publicKeysSigners (stateOf (addDefaultKeys w password files st)) =
                   publicKeysSigners st @ added"
proof (induction files)
  case Nil
  have "\<forall>st. publicKeysSigners (stateOf (addDefaultKeys w password [] st)) = publicKeysSigners st @ []"
    by simp
  then show ?case by blast
next
  case (Cons f files)
  obtain rest where rest:
    "\<And>st. publicKeysSigners (stateOf (addDefaultKeys w password files st)) = publicKeysSigners st @ rest"
    using Cons.IH by blast
  show ?case
  proof (cases "HasSuffix f ''.pub''")
    case True
    then have "\<forall>st. publicKeysSigners (stateOf (addDefaultKeys w password (f # files) st)) =
                   publicKeysSigners st @ rest"
      using rest by simp
    then show ?thesis by blast
  next
    case False
    obtain added where
      "(\<forall>st. \<exists>out st'. addPublicKeySigner w f password st = Stop out st' \<and>
                      publicKeysSigners st' = publicKeysSigners st @ added) \<or>
       (\<forall>st. \<exists>e st'. addPublicKeySigner w f password st = Continue e st' \<and>
                    publicKeysSigners st' = publicKeysSigners st @ added)"
      using addPublicKeySigner_frame [of w f password] by blast
    then show ?thesis
    proof
      assume stop: "\<forall>st. \<exists>out st'. addPublicKeySigner w f password st = Stop out st' \<and>
                      publicKeysSigners st' = publicKeysSigners st @ added"
      have "\<forall>st. publicKeysSigners (stateOf (addDefaultKeys w password (f # files) st)) =
                   publicKeysSigners st @ added"
      proof
        fix st
        obtain out st' where "addPublicKeySigner w f password st = Stop out st'"
            "publicKeysSigners st' = publicKeysSigners st @ added"
          using stop by blast
        then show "publicKeysSigners (stateOf (addDefaultKeys w password (f # files) st)) =
                   publicKeysSigners st @ added"
          using False by simp
      qed
      then show ?thesis by blast
    next
      assume cont: "\<forall>st. \<exists>e st'. addPublicKeySigner w f password st = Continue e st' \<and>
                    publicKeysSigners st' = publicKeysSigners st @ added"
      have "\<forall>st. publicKeysSigners (stateOf (addDefaultKeys w password (f # files) st)) =
                   publicKeysSigners st @ (added @ rest)"
      proof
        fix st
        obtain e st' where "addPublicKeySigner w f password st = Continue e st'"
            "publicKeysSigners st' = publicKeysSigners st @ added"
          using cont by blast
        then show "publicKeysSigners (stateOf (addDefaultKeys w password (f # files) st)) =
                   publicKeysSigners st @ (added @ rest)"
          using False rest [of st'] by simp
      qed
      then show ?thesis by blast
    qed
  qed
qed

text \<open>
  With a reachable agent the signers after the resolution are the agent's followed by
  what the key files added, whatever the list held before: for an identity file, for
  the default key files, and when \<^verbatim>\<open>ResolvePath\<close> panics.
\<close>

lemma resolveSigners_overwrite:
  assumes "dialUnix w (getenv w ''SSH_AUTH_SOCK'')"
  shows "\<exists>added. \<forall>prior.
           publicKeysSigners (stateOf (resolveSigners w network (st\<lparr>publicKeysSigners := prior\<rparr>))) =
             agentSigners w @ added"
proof (cases "IdentityFile network = []")
  case True
  obtain added where a:
    "\<And>s. publicKeysSigners (stateOf (addDefaultKeys w (Password network)
                (glob w (getenv w ''HOME'' @ ''/.ssh/id_*'')) s)) = publicKeysSigners s @ added"
    using addDefaultKeys_frame [of w "Password network" "glob w (getenv w ''HOME'' @ ''/.ssh/id_*'')"]
    by blast
  have "\<forall>prior.
           publicKeysSigners (stateOf (resolveSigners w network (st\<lparr>publicKeysSigners := prior\<rparr>))) =
             agentSigners w @ added"
    using assms True by (simp add: resolveSigners_def Let_def a emit_def)
  then show ?thesis by blast
next
  case False
  obtain added where
    "(\<forall>s. \<exists>out s'. addPublicKeySigner w (IdentityFile network) (Password network) s = Stop out s' \<and>
                      publicKeysSigners s' = publicKeysSigners s @ added) \<or>
     (\<forall>s. \<exists>e s'. addPublicKeySigner w (IdentityFile network) (Password network) s = Continue e s' \<and>
                    publicKeysSigners s' = publicKeysSigners s @ added)"
    using addPublicKeySigner_frame [of w "IdentityFile network" "Password network"] by blast
  then have a: "publicKeysSigners
           (stateOf (case addPublicKeySigner w (IdentityFile network) (Password network) s of
              Stop out st3 \<Rightarrow> Stop out st3
            | Continue (Some err) st3 \<Rightarrow>
                Continue () (emit (EvWarning err (Name network) (IdentityFile network)) st3)
            | Continue None st3 \<Rightarrow> Continue () st3)) = publicKeysSigners s @ added" for s
  proof
    assume "\<forall>s. \<exists>out s'. addPublicKeySigner w (IdentityFile network) (Password network) s = Stop out s' \<and>
                      publicKeysSigners s' = publicKeysSigners s @ added"
    then obtain out s' where "addPublicKeySigner w (IdentityFile network) (Password network) s = Stop out s'"
        "publicKeysSigners s' = publicKeysSigners s @ added"
      by blast
    then show ?thesis by simp
  next
    assume "\<forall>s. \<exists>e s'. addPublicKeySigner w (IdentityFile network) (Password network) s = Continue e s' \<and>
                    publicKeysSigners s' = publicKeysSigners s @ added"
    then obtain e s' where "addPublicKeySigner w (IdentityFile network) (Password network) s = Continue e s'"
        "publicKeysSigners s' = publicKeysSigners s @ added"
      by blast
    then show ?thesis by (cases e) simp_all
  qed
  have "\<forall>prior.
           publicKeysSigners (stateOf (resolveSigners w network (st\<lparr>publicKeysSigners := prior\<rparr>))) =
             agentSigners w @ added"
    using assms False by (simp add: resolveSigners_def Let_def a emit_def)
  then show ?thesis by blast
qed

lemma identity_file_outcome:
  assumes "dialUnix w (getenv w ''SSH_AUTH_SOCK'')"
      and "IdentityFile network \<noteq> []"
      and "ResolvePath w (IdentityFile network) = Inr path"
      and "readFile w path = Inr key"
  shows "(\<exists>st'. resolveSigners w network st = Continue () st') \<and>
         (case parseOutcome w key (Password network) of
            Inr s \<Rightarrow>
              publicKeysSigners (stateOf (resolveSigners w network st)) = agentSigners w @ [s] \<and>
              filter isWarning (newEvents st (stateOf (resolveSigners w network st))) = []
          | Inl e \<Rightarrow>
              publicKeysSigners (stateOf (resolveSigners w network st)) = agentSigners w \<and>
              filter isWarning (newEvents st (stateOf (resolveSigners w network st))) =
                [EvWarning e (Name network) (IdentityFile network)])"
proof -
  let ?st2 = "(emit EvAgentSigners (emit (EvDial (getenv w ''SSH_AUTH_SOCK'')) st))
                \<lparr>publicKeysSigners := agentSigners w\<rparr>"
  obtain st3 evs where
    r: "addPublicKeySigner w (IdentityFile network) (Password network) ?st2 =
       Continue (case parseOutcome w key (Password network) of Inr s \<Rightarrow> None | Inl e \<Rightarrow> Some e) st3"
    and sg: "publicKeysSigners st3 =
       (case parseOutcome w key (Password network) of
          Inr s \<Rightarrow> publicKeysSigners ?st2 @ [s]
        | Inl e \<Rightarrow> publicKeysSigners ?st2)"
    and tr: "trace st3 = trace ?st2 @ evs" and nw: "filter isWarning evs = []"
    by (rule addPublicKeySigner_parsed [OF assms(3,4), of "Password network" ?st2])
  show ?thesis
  proof (cases "parseOutcome w key (Password network)")
    case (Inl e)
    then have "resolveSigners w network st =
        Continue () (emit (EvWarning e (Name network) (IdentityFile network)) st3)"
      using assms(1,2) r by (simp add: resolveSigners_def)
    then show ?thesis using Inl sg tr nw
      by (simp add: newEvents_def)
  next
    case (Inr s)
    then have "resolveSigners w network st = Continue () st3"
      using assms(1,2) r by (simp add: resolveSigners_def)
    then show ?thesis using Inr sg tr nw
      by (simp add: newEvents_def)
  qed
qed

text \<open>
  C4. When the agent is reachable, the signers after the resolution are the agent's
  followed by what the key files added, whatever the list held before (a full
  overwrite, not an append). When moreover an identity file is configured (and can
  be read), the resolution never stops \<^verbatim>\<open>Run\<close>; when the parse of the file
  succeeds, the signers are the agent's followed by the one parsed and no warning is
  printed; when the parse fails, the signers are the agent's alone and exactly one
  warning is printed.
\<close>

theorem credential_precedence:
  assumes "dialUnix w (getenv w ''SSH_AUTH_SOCK'')"
  shows "(\<exists>added. \<forall>prior.
            publicKeysSigners (stateOf (resolveSigners w network (st\<lparr>publicKeysSigners := prior\<rparr>))) =
              agentSigners w @ added) \<and>
         (IdentityFile network \<noteq> [] \<and> ResolvePath w (IdentityFile network) = Inr path \<and>
          readFile w path = Inr key \<longrightarrow>
            (\<exists>st'. resolveSigners w network st = Continue () st') \<and>
            (case parseOutcome w key (Password network) of
               Inr s \<Rightarrow>
                 publicKeysSigners (stateOf (resolveSigners w network st)) = agentSigners w @ [s] \<and>
                 filter isWarning (newEvents st (stateOf (resolveSigners w network st))) = []
             | Inl e \<Rightarrow>
                 publicKeysSigners (stateOf (resolveSigners w network st)) = agentSigners w \<and>
                 filter isWarning (newEvents st (stateOf (resolveSigners w network st))) =
                   [EvWarning e (Name network) (IdentityFile network)]))"
proof (intro conjI impI)
  show "\<exists>added. \<forall>prior.
            publicKeysSigners (stateOf (resolveSigners w network (st\<lparr>publicKeysSigners := prior\<rparr>))) =
              agentSigners w @ added"
    using assms by (rule resolveSigners_overwrite)
next
  assume h: "IdentityFile network \<noteq> [] \<and> ResolvePath w (IdentityFile network) = Inr path \<and>
          readFile w path = Inr key"
  show "\<exists>st'. resolveSigners w network st = Continue () st'"
    using identity_file_outcome [OF assms, of network path key st] h by blast
next
  assume h: "IdentityFile network \<noteq> [] \<and> ResolvePath w (IdentityFile network) = Inr path \<and>
          readFile w path = Inr key"
  show "case parseOutcome w key (Password network) of
               Inr s \<Rightarrow>
                 publicKeysSigners (stateOf (resolveSigners w network st)) = agentSigners w @ [s] \<and>
                 filter isWarning (newEvents st (stateOf (resolveSigners w network st))) = []
             | Inl e \<Rightarrow>
                 publicKeysSigners (stateOf (resolveSigners w network st)) = agentSigners w \<and>
                 filter isWarning (newEvents st (stateOf (resolveSigners w network st))) =
                   [EvWarning e (Name network) (IdentityFile network)]"
    using identity_file_outcome [OF assms, of network path key st] h by blast
qed

theorem credential_precedence_witness:
  "(\<exists>st'. resolveSigners demoWorld demoNetwork st0 = Continue () st') \<and>
   publicKeysSigners (stateOf (resolveSigners demoWorld demoNetwork st0)) = [''agent key'', ''deploy key''] \<and>
   filter isWarning (newEvents st0 (stateOf (resolveSigners demoWorld demoNetwork st0))) = [] \<and>
   (\<exists>st'. resolveSigners demoWorld (demoNetwork\<lparr>Password := ''guess''\<rparr>) st0 = Continue () st') \<and>
   publicKeysSigners (stateOf (resolveSigners demoWorld (demoNetwork\<lparr>Password := ''guess''\<rparr>) st0)) = [''agent key''] \<and>
   filter isWarning (newEvents st0 (stateOf (resolveSigners demoWorld (demoNetwork\<lparr>Password := ''guess''\<rparr>) st0))) =
     [EvWarning (New ''x509: decryption password incorrect'') ''production'' ''~/.ssh/deploy'']"
proof -
  have d: "dialUnix demoWorld (getenv demoWorld ''SSH_AUTH_SOCK'')"
    by (simp add: demoWorld_def)
  have i1: "IdentityFile demoNetwork \<noteq> []" "IdentityFile demoNetwork = ''~/.ssh/deploy''"
    by (simp_all add: demoNetwork_def)
  have i2: "IdentityFile (demoNetwork\<lparr>Password := ''guess''\<rparr>) \<noteq> []"
       "IdentityFile (demoNetwork\<lparr>Password := ''guess''\<rparr>) = ''~/.ssh/deploy''"
    by (simp_all add: demoNetwork_def)
  have p1: "parseOutcome demoWorld ''ENCRYPTED KEY'' (Password demoNetwork) = Inr ''deploy key''"
    by (simp add: parseOutcome_def demoWorld_def demoNetwork_def)
  have p2: "parseOutcome demoWorld ''ENCRYPTED KEY'' ''guess''
              = Inl (New ''x509: decryption password incorrect'')"
    by (simp add: parseOutcome_def demoWorld_def)
  have n: "Name (demoNetwork\<lparr>Password := ''guess''\<rparr>) = ''production''"
    by (simp add: demoNetwork_def)
  have a: "agentSigners demoWorld = [''agent key'']" by (simp add: demoWorld_def)
  note t1 = credential_precedence [OF d, of demoNetwork st0 "''/home/u/.ssh/deploy''" "''ENCRYPTED KEY''",
              THEN conjunct2, rule_format, OF conjI [OF i1(1) conjI [OF demo_resolvePath [folded i1(2)] demo_readFile]]]
  note t2 = credential_precedence [OF d, of "demoNetwork\<lparr>Password := ''guess''\<rparr>" st0
              "''/home/u/.ssh/deploy''" "''ENCRYPTED KEY''",
              THEN conjunct2, rule_format, OF conjI [OF i2(1) conjI [OF demo_resolvePath [folded i2(2)] demo_readFile]]]
  show ?thesis
    using t1 t2 by (simp add: p1 p2 n a i2(2))
qed

text \<open>
  C5, as amended. When the first parse of the key fails and the password is not empty,
  \<^verbatim>\<open>addPublicKeySigner\<close> parses the key again with the password as passphrase;
  when that parse succeeds the signer is appended and nil is returned, and when it
  fails its error is returned and the signers are unchanged. When the password is
  empty the key is not parsed with any passphrase: the error of the first parse is
  returned and the signers are unchanged.
\<close>

theorem passphrase_retry:
  assumes "ResolvePath w file = Inr path"
      and "readFile w path = Inr key"
      and "parsePrivateKey w key = Inl err"
  shows "\<exists>st'. addPublicKeySigner w file password st =
                 Continue (if password \<noteq> []
                           then (case parsePrivateKeyWithPassphrase w key password of
                                   Inr s \<Rightarrow> None | Inl e \<Rightarrow> Some e)
                           else Some err) st' \<and>
               publicKeysSigners st' =
                 (if password \<noteq> []
                  then (case parsePrivateKeyWithPassphrase w key password of
                          Inr s \<Rightarrow> publicKeysSigners st @ [s]
                        | Inl e \<Rightarrow> publicKeysSigners st)
                  else publicKeysSigners st) \<and>
               (if password \<noteq> []
                then EvParsePrivateKeyWithPassphrase key password \<in> set (newEvents st st')
                else \<forall>k pw. EvParsePrivateKeyWithPassphrase k pw \<notin> set (newEvents st st'))"
proof (cases "password = []")
  case True
  then show ?thesis using assms
    by (simp add: addPublicKeySigner_def newEvents_def)
next
  case False
  show ?thesis
  proof (cases "parsePrivateKeyWithPassphrase w key password")
    case (Inl e)
    then show ?thesis using assms False
      by (simp add: addPublicKeySigner_def newEvents_def)
  next
    case (Inr s)
    then show ?thesis using assms False
      by (simp add: addPublicKeySigner_def newEvents_def)
  qed
qed

theorem passphrase_retry_witness:
  "(\<exists>st'. addPublicKeySigner demoWorld ''~/.ssh/deploy'' ''secret'' st0 = Continue None st' \<and>
          publicKeysSigners st' = [''stale key'', ''deploy key''] \<and>
          EvParsePrivateKeyWithPassphrase ''ENCRYPTED KEY'' ''secret'' \<in> set (newEvents st0 st')) \<and>
   (\<exists>st'. addPublicKeySigner demoWorld ''~/.ssh/deploy'' [] (emit EvAgentSigners st0) =
            Continue (Some (New ''ssh: this private key is passphrase protected'')) st' \<and>
          publicKeysSigners st' = [''stale key''] \<and>
          (\<forall>k pw. EvParsePrivateKeyWithPassphrase k pw \<notin> set (newEvents (emit EvAgentSigners st0) st')))"
  using passphrase_retry [OF demo_resolvePath demo_readFile demo_parse, of "''secret''" st0]
        passphrase_retry [OF demo_resolvePath demo_readFile demo_parse, of "[]" "emit EvAgentSigners st0"]
  by (simp add: demoWorld_def st0_def)

text \<open>
  C5, as stated, fails: with an empty password the key is not parsed a second time.
  The first parse of the encrypted key fails, and \<^verbatim>\<open>addPublicKeySigner\<close> returns
  that error after reading the file and parsing it once.
\<close>

theorem no_retry_without_password:
  "parsePrivateKey demoWorld ''ENCRYPTED KEY'' =
     Inl (New ''ssh: this private key is passphrase protected'') \<and>
   addPublicKeySigner demoWorld ''~/.ssh/deploy'' [] st0 =
     Continue (Some (New ''ssh: this private key is passphrase protected''))
       \<lparr>publicKeysSigners = [''stale key''],
        trace = [EvReadFile ''/home/u/.ssh/deploy'', EvParsePrivateKey ''ENCRYPTED KEY'']\<rparr> \<and>
   EvParsePrivateKeyWithPassphrase ''ENCRYPTED KEY'' []
     \<notin> set (trace (stateOf (addPublicKeySigner demoWorld ''~/.ssh/deploy'' [] st0)))"
  by (simp add: addPublicKeySigner_def demo_resolvePath demo_readFile demo_parse emit_def st0_def)

subsection \<open>Events that the early phases do not produce\<close>

lemma addPublicKeySigner_keeps:
  assumes "\<And>p. \<not> P (EvReadFile p)" "\<And>k. \<not> P (EvParsePrivateKey k)"
          "\<And>k pw. \<not> P (EvParsePrivateKeyWithPassphrase k pw)"
  shows "filter P (trace (stateOf (addPublicKeySigner w file password st))) = filter P (trace st)"
  using assms by (simp add: addPublicKeySigner_def Let_def split: sum.splits)

lemma addDefaultKeys_keeps:
  assumes "\<And>p. \<not> P (EvReadFile p)" "\<And>k. \<not> P (EvParsePrivateKey k)"
          "\<And>k pw. \<not> P (EvParsePrivateKeyWithPassphrase k pw)"
  shows "filter P (trace (stateOf (addDefaultKeys w password files st))) = filter P (trace st)"
proof (induction files arbitrary: st)
  case Nil
  show ?case by simp
next
  case (Cons f files)
  show ?case
  proof (cases "HasSuffix f ''.pub''")
    case True
    then show ?thesis using Cons.IH by simp
  next
    case False
    show ?thesis
    proof (cases "addPublicKeySigner w f password st")
      case (Continue err st')
      then have "filter P (trace st') = filter P (trace st)"
        using addPublicKeySigner_keeps [of P w f password st] assms by simp
      then show ?thesis using False Continue Cons.IH [of st'] by simp
    next
      case (Stop out st')
      then have "filter P (trace st') = filter P (trace st)"
        using addPublicKeySigner_keeps [of P w f password st] assms by simp
      then show ?thesis using False Stop by simp
    qed
  qed
qed

lemma resolveSigners_keeps:
  assumes "\<And>p. \<not> P (EvReadFile p)" "\<And>k. \<not> P (EvParsePrivateKey k)"
          "\<And>k pw. \<not> P (EvParsePrivateKeyWithPassphrase k pw)"
          "\<And>s. \<not> P (EvDial s)" "\<not> P EvAgentSigners" "\<And>g. \<not> P (EvGlob g)"
          "\<And>e n f. \<not> P (EvWarning e n f)"
  shows "filter P (trace (stateOf (resolveSigners w network st))) = filter P (trace st)"
proof (cases "IdentityFile network = []")
  case True
  then show ?thesis
    using assms(4-6) addDefaultKeys_keeps [of P, OF assms(1-3)]
    by (simp add: resolveSigners_def Let_def)
next
  case False
  let ?st2 = "if dialUnix w (getenv w ''SSH_AUTH_SOCK'')
                 then (emit EvAgentSigners (emit (EvDial (getenv w ''SSH_AUTH_SOCK'')) st))\<lparr>publicKeysSigners := agentSigners w\<rparr>
                 else emit (EvDial (getenv w ''SSH_AUTH_SOCK'')) st"
  have k: "filter P (trace (stateOf (addPublicKeySigner w (IdentityFile network) (Password network) ?st2)))
            = filter P (trace st)"
    using addPublicKeySigner_keeps [of P, OF assms(1-3)] assms(4,5) by simp
  show ?thesis
  proof (cases "addPublicKeySigner w (IdentityFile network) (Password network) ?st2")
    case (Stop out st3)
    then show ?thesis using False k by (simp add: resolveSigners_def Let_def)
  next
    case (Continue err st3)
    then show ?thesis using False k assms(7)
      by (cases err) (simp_all add: resolveSigners_def Let_def)
  qed
qed

lemma connectBastion_keeps:
  assumes "\<And>c. clientRef c = BastionRef \<Longrightarrow> \<not> P (EvConnect c)"
  shows "filter P (trace (stateOf (connectBastion w stk network st))) = filter P (trace st)"
  using assms by (simp add: connectBastion_def Let_def split: option.splits)

lemma demo_resolveSigners:
  "resolveSigners demoWorld bastionNetwork st0 =
     Continue () \<lparr>publicKeysSigners = [''agent key'', ''deploy key''],
       trace = [EvDial ''/tmp/agent.sock'', EvAgentSigners, EvReadFile ''/home/u/.ssh/deploy'',
                EvParsePrivateKey ''ENCRYPTED KEY'',
                EvParsePrivateKeyWithPassphrase ''ENCRYPTED KEY'' ''secret'']\<rparr>"
  by (simp add: resolveSigners_def addPublicKeySigner_def ResolvePath_def Let_def emit_def
        appendSigner_def demo_defs)

lemma demo_resolveSigners_down:
  "resolveSigners demoWorld downNetwork st0 =
     Continue () \<lparr>publicKeysSigners = [''agent key'', ''deploy key''],
       trace = [EvDial ''/tmp/agent.sock'', EvAgentSigners, EvReadFile ''/home/u/.ssh/deploy'',
                EvParsePrivateKey ''ENCRYPTED KEY'',
                EvParsePrivateKeyWithPassphrase ''ENCRYPTED KEY'' ''secret'']\<rparr>"
  by (simp add: resolveSigners_def addPublicKeySigner_def ResolvePath_def Let_def emit_def
        appendSigner_def demo_defs)

subsection \<open>The bastion\<close>

text \<open>
  C6. When the network has a bastion and connecting to it fails, \<^verbatim>\<open>Run\<close> returns
  that error wrapped with "connecting to bastion failed", and the trace holds no
  connection attempt to a host that it did not hold before.
\<close>

theorem relay_first:
  assumes "commands \<noteq> []"
      and "resolveSigners w network st = Continue () st1"
      and "Bastion network = Some b"
      and "connectResult w (SSHClient BastionRef [] b (Password network) [] (ignoreHostKey stk)) = Some err"
  shows "fst (Run w stk network envVars commands st) =
           Returned (Some (Wrap err ''connecting to bastion failed'')) \<and>
         filter isHostConnect (trace (snd (Run w stk network envVars commands st))) =
           filter isHostConnect (trace st)"
proof -
  let ?b = "SSHClient BastionRef [] b (Password network) [] (ignoreHostKey stk)"
  have cb: "connectBastion w stk network st1 =
          Stop (Returned (Some (Wrap err ''connecting to bastion failed''))) (emit (EvConnect ?b) st1)"
    using assms(3,4) by (simp add: connectBastion_def)
  have run: "Run w stk network envVars commands st =
          (Returned (Some (Wrap err ''connecting to bastion failed'')), emit (EvConnect ?b) st1)"
    using assms(1,2) cb by (simp add: Run_def)
  have "filter isHostConnect (trace st1) = filter isHostConnect (trace st)"
    using resolveSigners_keeps [of isHostConnect w network st] assms(2) by simp
  then show ?thesis using run by simp
qed

theorem relay_first_witness:
  "fst (Run demoWorld demoStk bastionNetwork [] [''deploy''] st0) =
     Returned (Some (Wrap (New ''dial tcp: connection refused'') ''connecting to bastion failed'')) \<and>
   filter isHostConnect (trace (snd (Run demoWorld demoStk bastionNetwork [] [''deploy''] st0))) = []"
proof -
  have c: "[''deploy''] \<noteq> []" by simp
  have b: "Bastion bastionNetwork = Some \<lparr>Hostname = ''gate'', HostUser = ''deploy''\<rparr>"
    by (simp add: bastionNetwork_def)
  have r: "connectResult demoWorld
             (SSHClient BastionRef [] \<lparr>Hostname = ''gate'', HostUser = ''deploy''\<rparr>
                (Password bastionNetwork) [] (ignoreHostKey demoStk))
           = Some (New ''dial tcp: connection refused'')"
    by (simp add: demoWorld_def demoConnect_def)
  show ?thesis
    using relay_first [OF c demo_resolveSigners b r, of "[]"]
    by (simp add: st0_def)
qed

subsection \<open>The goroutines of the hosts\<close>

lemma connectHost_ref:
  "snd (connectHost w stk network env bastion i host) = ToClientCh c \<Longrightarrow> clientRef c = HostRef i"
  by (auto simp: connectHost_def Let_def split: if_splits option.splits)


lemma connectHost_no_panic:
  "Colors w \<noteq> [] \<Longrightarrow> snd (connectHost w stk network env bastion i host) \<noteq> GoPanic p"
  by (simp add: connectHost_def Let_def split: option.splits)

lemma connectHost_events:
  "filter isTaskEvent (fst (connectHost w stk network env bastion i host)) = []"
  by (simp add: connectHost_def Let_def split: option.splits)

lemma hostGoroutines_keeps:
  "filter isTaskEvent (trace (stateOf (hostGoroutines w stk network env bastion order st))) =
     filter isTaskEvent (trace st)"
proof (induction order arbitrary: st)
  case Nil
  show ?case by simp
next
  case (Cons ih rest)
  obtain i host where ih: "ih = (i, host)" by (cases ih)
  obtain evs r where ch: "connectHost w stk network env bastion i host = (evs, r)"
    by (cases "connectHost w stk network env bastion i host")
  have ev: "filter isTaskEvent evs = []"
    using connectHost_events [of w stk network env bastion i host] ch by simp
  have IH: "filter isTaskEvent (trace (stateOf (hostGoroutines w stk network env bastion rest (emits evs st))))
              = filter isTaskEvent (trace st)"
    using Cons.IH [of "emits evs st"] ev by simp
  show ?case
  proof (cases r)
    case (GoPanic p)
    then show ?thesis using ih ch ev by simp
  next
    case (ToClientCh c)
    then show ?thesis using ih ch IH
      by (cases "hostGoroutines w stk network env bastion rest (emits evs st)") (auto)
  next
    case (ToErrCh e)
    then show ?thesis using ih ch IH
      by (cases "hostGoroutines w stk network env bastion rest (emits evs st)") (auto)
  qed
qed

lemma hostGoroutines_total:
  assumes "Colors w \<noteq> []"
  shows "\<exists>cs es st'. hostGoroutines w stk network env bastion order st = Continue (cs, es) st'"
proof (induction order arbitrary: st)
  case Nil
  show ?case by simp
next
  case (Cons ih rest)
  obtain i host where ih: "ih = (i, host)" by (cases ih)
  obtain evs r where ch: "connectHost w stk network env bastion i host = (evs, r)"
    by (cases "connectHost w stk network env bastion i host")
  obtain cs es st' where
    IH: "hostGoroutines w stk network env bastion rest (emits evs st) = Continue (cs, es) st'"
    using Cons.IH [of "emits evs st"] by blast
  show ?case
  proof (cases r)
    case (GoPanic p)
    then show ?thesis
      using connectHost_no_panic [OF assms, of stk network env bastion i host p] ch by simp
  next
    case (ToClientCh c)
    then show ?thesis using ih ch IH by simp
  next
    case (ToErrCh e)
    then show ?thesis using ih ch IH by simp
  qed
qed

text \<open>What the two channels hold: the clients and the errors the goroutines sent.\<close>

lemma hostGoroutines_channels:
  assumes "hostGoroutines w stk network env bastion order st = Continue (cs, es) st'"
  shows "set cs = {c. \<exists>(i, h) \<in> set order. snd (connectHost w stk network env bastion i h) = ToClientCh c}"
    and "set es = {e. \<exists>(i, h) \<in> set order. snd (connectHost w stk network env bastion i h) = ToErrCh e}"
    and "map clientRef cs =
           map (\<lambda>(i, h). HostRef i)
             (filter (\<lambda>(i, h). \<exists>c. snd (connectHost w stk network env bastion i h) = ToClientCh c) order)"
  using assms
proof (induction order arbitrary: st cs es)
  case Nil
  {
    case 1 then show ?case by simp
  next
    case 2 then show ?case by simp
  next
    case 3 then show ?case by simp
  }
next
  case (Cons ih rest)
  obtain i host where ih: "ih = (i, host)" by (cases ih)
  obtain evs r where ch: "connectHost w stk network env bastion i host = (evs, r)"
    by (cases "connectHost w stk network env bastion i host")
  {
    case 1
    show ?case
    proof (cases r)
      case (GoPanic p)
      then show ?thesis using 1 ih ch by simp
    next
      case (ToClientCh c)
      then obtain cs' where "hostGoroutines w stk network env bastion rest (emits evs st) = Continue (cs', es) st'"
          and "cs = c # cs'"
        using 1 ih ch
        by (cases "hostGoroutines w stk network env bastion rest (emits evs st)") (auto split: prod.splits)
      then show ?thesis using Cons.IH(1) [of "emits evs st" cs' es] ih ch ToClientCh by auto
    next
      case (ToErrCh e)
      then obtain es' where "hostGoroutines w stk network env bastion rest (emits evs st) = Continue (cs, es') st'"
          and "es = e # es'"
        using 1 ih ch
        by (cases "hostGoroutines w stk network env bastion rest (emits evs st)") (auto split: prod.splits)
      then show ?thesis using Cons.IH(1) [of "emits evs st" cs es'] ih ch ToErrCh by auto
    qed
  next
    case 2
    show ?case
    proof (cases r)
      case (GoPanic p)
      then show ?thesis using 2 ih ch by simp
    next
      case (ToClientCh c)
      then obtain cs' where "hostGoroutines w stk network env bastion rest (emits evs st) = Continue (cs', es) st'"
          and "cs = c # cs'"
        using 2 ih ch
        by (cases "hostGoroutines w stk network env bastion rest (emits evs st)") (auto split: prod.splits)
      then show ?thesis using Cons.IH(2) [of "emits evs st" cs' es] ih ch ToClientCh by auto
    next
      case (ToErrCh e)
      then obtain es' where "hostGoroutines w stk network env bastion rest (emits evs st) = Continue (cs, es') st'"
          and "es = e # es'"
        using 2 ih ch
        by (cases "hostGoroutines w stk network env bastion rest (emits evs st)") (auto split: prod.splits)
      then show ?thesis using Cons.IH(2) [of "emits evs st" cs es'] ih ch ToErrCh by auto
    qed
  next
    case 3
    show ?case
    proof (cases r)
      case (GoPanic p)
      then show ?thesis using 3 ih ch by simp
    next
      case (ToClientCh c)
      then obtain cs' where "hostGoroutines w stk network env bastion rest (emits evs st) = Continue (cs', es) st'"
          and "cs = c # cs'"
        using 3 ih ch
        by (cases "hostGoroutines w stk network env bastion rest (emits evs st)") (auto split: prod.splits)
      then show ?thesis using Cons.IH(3) [of "emits evs st" cs' es] ih ch ToClientCh
          connectHost_ref [of w stk network env bastion i host c] by simp
    next
      case (ToErrCh e)
      then obtain es' where "hostGoroutines w stk network env bastion rest (emits evs st) = Continue (cs, es') st'"
          and "es = e # es'"
        using 3 ih ch
        by (cases "hostGoroutines w stk network env bastion rest (emits evs st)") (auto split: prod.splits)
      then show ?thesis using Cons.IH(3) [of "emits evs st" cs es'] ih ch ToErrCh by simp
    qed
  }
qed


lemma in_errCh:
  assumes "hostGoroutines w stk network env bastion order st = Continue (cs, es) st'"
  shows "e \<in> set es \<longleftrightarrow>
           (\<exists>i h. (i, h) \<in> set order \<and> snd (connectHost w stk network env bastion i h) = ToErrCh e)"
  using hostGoroutines_channels(2) [OF assms] by auto

lemma completionOrder_set:
  "(i, h) \<in> set (completionOrder w network) \<longleftrightarrow> i < length (Hosts network) \<and> Hosts network ! i = h"
  by (auto simp: completionOrder_def in_set_enumerate_eq)

lemma completionOrder_distinct: "distinct (map fst (completionOrder w network))"
proof -
  have "distinct (map fst (enumerate 0 (Hosts network)))"
    by simp
  then have "distinct (enumerate 0 (Hosts network)) \<and> inj_on fst (set (enumerate 0 (Hosts network)))"
    by (simp only: distinct_map)
  then show ?thesis
    by (simp add: completionOrder_def distinct_map)
qed

lemma connectHosts_distinct:
  assumes "connectHosts w stk network env bastion st = Continue (clientCh, errCh) st'"
  shows "distinct clientCh"
proof -
  have "distinct (map fst (filter (\<lambda>(i, h). \<exists>c. snd (connectHost w stk network env bastion i h) = ToClientCh c)
                     (completionOrder w network)))"
    using completionOrder_distinct [of w network] by (rule distinct_map_filter)
  then have "distinct (map (\<lambda>(i, h). HostRef i)
        (filter (\<lambda>(i, h). \<exists>c. snd (connectHost w stk network env bastion i h) = ToClientCh c)
                     (completionOrder w network)))"
    by (simp add: distinct_map inj_on_def split_beta prod_eq_iff)
  then have "distinct (map clientRef clientCh)"
    using hostGoroutines_channels(3) [OF assms [unfolded connectHosts_def]] by simp
  then show ?thesis by (simp only: distinct_map)
qed

lemma demo_connectHosts:
  "connectHosts demoWorld demoStk demoNetwork [] None st =
     Continue ([demoLocal, demoRemote], []) (emits [EvConnect demoLocal, EvConnect demoRemote] st)"
  by (simp add: connectHosts_def completionOrder_def connectHost_def Let_def
        HasPrefix_def emits_def demoWorld_def demoNetwork_def demoStk_def demoLocal_def
        demoRemote_def demoConnect_def)



subsection \<open>Draining the channels\<close>

lemma drainClients_result:
  "drainClients w cs maxLen clients deferred =
     (fold (\<lambda>c m. if snd (prefixOf w c) > m then snd (prefixOf w c) else m) cs maxLen,
      clients @ cs, deferred @ filter isSSHClient cs)"
proof (induction cs arbitrary: maxLen clients deferred)
  case Nil
  show ?case by simp
next
  case (Cons c cs)
  show ?case by (cases c) (simp_all add: Cons.IH Let_def)
qed

lemma fold_max_ge:
  "(m::int) \<le> fold (\<lambda>c m. if f c > m then f c else m) cs m"
proof (induction cs arbitrary: m)
  case Nil
  show ?case by simp
next
  case (Cons c cs)
  show ?case using Cons.IH [of "if f c > m then f c else m"] by (simp split: if_splits)
qed

lemma fold_max_member:
  "c \<in> set cs \<Longrightarrow> f c \<le> fold (\<lambda>c m. if f c > m then f c else m) cs (m::int)"
proof (induction cs arbitrary: m)
  case Nil
  then show ?case by simp
next
  case (Cons d cs)
  show ?case
  proof (cases "c = d")
    case True
    have "f d \<le> (if f d > m then f d else m)" by simp
    also have "\<dots> \<le> fold (\<lambda>c m. if f c > m then f c else m) cs (if f d > m then f d else m)"
      by (rule fold_max_ge)
    finally show ?thesis using True by simp
  next
    case False
    then show ?thesis using Cons by simp
  qed
qed

lemma drainClients_maxLen:
  "c \<in> set clientCh \<Longrightarrow> snd (prefixOf w c) \<le> fst (drainClients w clientCh 0 [] [])"
  by (simp add: drainClients_result fold_max_member [of c clientCh "\<lambda>c. snd (prefixOf w c)"])

text \<open>
  C8. When the connection to one of the hosts fails (and no earlier phase ended the
  run), \<^verbatim>\<open>Run\<close> returns the first error of the error channel wrapped with
  "connecting to clients failed"; after the connections the only calls are the
  deferred \<^verbatim>\<open>Close\<close> of the ssh clients that did connect, last one first; no
  task is created or run.
\<close>

theorem connector_atomicity:
  assumes "commands \<noteq> []"
      and "resolveSigners w network st = Continue () st1"
      and "connectBastion w stk network st1 = Continue bastion st2"
      and "Colors w \<noteq> []"
      and "i < length (Hosts network)"
      and "snd (connectHost w stk network (asExport w envVars) bastion i (Hosts network ! i)) = ToErrCh e"
  shows "\<exists>clientCh err errs st3.
           connectHosts w stk network (asExport w envVars) bastion st2 = Continue (clientCh, err # errs) st3 \<and>
           Run w stk network envVars commands st =
             (Returned (Some (Wrap err ''connecting to clients failed'')),
              emits (map EvClose (rev (filter isSSHClient clientCh))) st3) \<and>
           filter isTaskEvent (trace (snd (Run w stk network envVars commands st))) =
             filter isTaskEvent (trace st)"
proof -
  let ?env = "asExport w envVars"
  obtain cs es st3 where
    hg: "hostGoroutines w stk network ?env bastion (completionOrder w network) st2 = Continue (cs, es) st3"
    using hostGoroutines_total [OF assms(4), of stk network ?env bastion "completionOrder w network" st2]
    by blast
  then have ch: "connectHosts w stk network ?env bastion st2 = Continue (cs, es) st3"
    by (simp add: connectHosts_def)
  have "(i, Hosts network ! i) \<in> set (completionOrder w network)"
    using assms(5) by (simp add: completionOrder_set)
  then have "e \<in> set es"
    using in_errCh [OF hg, of e] assms(6) by blast
  then obtain err errs where es: "es = err # errs"
    by (cases es) auto
  have dr: "drainClients w cs 0 [] [] =
      (fold (\<lambda>c m. if snd (prefixOf w c) > m then snd (prefixOf w c) else m) cs 0, cs, filter isSSHClient cs)"
    by (simp add: drainClients_result)
  have run: "Run w stk network envVars commands st =
             (Returned (Some (Wrap err ''connecting to clients failed'')),
              emits (map EvClose (rev (filter isSSHClient cs))) st3)"
    using assms(1,2,3) ch es dr by (simp add: Run_def finish_def)
  have t1: "filter isTaskEvent (trace st1) = filter isTaskEvent (trace st)"
    using resolveSigners_keeps [of isTaskEvent w network st] assms(2) by simp
  have t2: "filter isTaskEvent (trace st2) = filter isTaskEvent (trace st1)"
    using connectBastion_keeps [of isTaskEvent w stk network st1] assms(3) by simp
  have t3: "filter isTaskEvent (trace st3) = filter isTaskEvent (trace st2)"
    using hostGoroutines_keeps [of w stk network ?env bastion "completionOrder w network" st2] hg by simp
  have cl: "filter isTaskEvent (map EvClose xs) = []" for xs
    by (induction xs) simp_all
  have "filter isTaskEvent (trace (snd (Run w stk network envVars commands st))) =
             filter isTaskEvent (trace st)"
    using run t1 t2 t3 cl by simp
  then show ?thesis using ch es run by blast
qed

theorem connector_atomicity_witness:
  "\<exists>clientCh st3.
     connectHosts demoWorld demoStk downNetwork [] None
        (stateOf (resolveSigners demoWorld downNetwork st0)) =
       Continue (clientCh, [Wrap (New ''dial tcp: connection refused'') ''connecting to remote host failed'']) st3 \<and>
     Run demoWorld demoStk downNetwork [] [''deploy''] st0 =
       (Returned (Some (Wrap (Wrap (New ''dial tcp: connection refused'') ''connecting to remote host failed'')
                          ''connecting to clients failed'')),
        emits (map EvClose (rev (filter isSSHClient clientCh))) st3) \<and>
     filter isTaskEvent (trace (snd (Run demoWorld demoStk downNetwork [] [''deploy''] st0))) = []"
proof -
  have c: "[''deploy''] \<noteq> []" by simp
  have b: "connectBastion demoWorld demoStk downNetwork (stateOf (resolveSigners demoWorld downNetwork st0))
             = Continue None (stateOf (resolveSigners demoWorld downNetwork st0))"
    by (simp add: connectBastion_def downNetwork_def demoNetwork_def)
  have col: "Colors demoWorld \<noteq> []" by (simp add: demoWorld_def)
  have i: "1 < length (Hosts downNetwork)" by (simp add: downNetwork_def)
  have e: "snd (connectHost demoWorld demoStk downNetwork (asExport demoWorld []) None 1
                 (Hosts downNetwork ! 1)) =
             ToErrCh (Wrap (New ''dial tcp: connection refused'') ''connecting to remote host failed'')"
    by (simp add: connectHost_def HasPrefix_def Let_def demo_defs)
  have env: "asExport demoWorld [] = []" by (simp add: demoWorld_def)
  have es: "errs = []" if "connectHosts demoWorld demoStk downNetwork [] None st = Continue (cs, err # errs) st'"
    for cs err errs st st'
    using that
    by (simp add: connectHosts_def completionOrder_def connectHost_def HasPrefix_def Let_def demo_defs)
  have e1: "err = Wrap (New ''dial tcp: connection refused'') ''connecting to remote host failed''"
    if "connectHosts demoWorld demoStk downNetwork [] None st = Continue (cs, err # errs) st'"
    for cs err errs st st'
    using that
    by (simp add: connectHosts_def completionOrder_def connectHost_def HasPrefix_def Let_def demo_defs)
  show ?thesis
    using connector_atomicity [OF c _ b col i e, of st0] demo_resolveSigners_down es e1
    by (fastforce simp: env st0_def)
qed

subsection \<open>The prefix\<close>

lemma paddedPrefix_ok:
  assumes "snd (prefixOf w c) \<le> maxLen"
  shows "\<exists>pre. paddedPrefix w stk maxLen c = Inr pre"
  using assms by (cases "prefixOf w c") (simp add: paddedPrefix_def)

lemma paddedPrefix_pads:
  assumes "prefix stk" "prefixOf w c = (p, prefixLen)"
      and "int (length p) < maxLen" "prefixLen \<le> maxLen"
  shows "paddedPrefix w stk maxLen c = Inr (replicate (nat (maxLen - prefixLen)) CHR '' '' @ p)"
  using assms by (simp add: paddedPrefix_def)

lemma paddedPrefix_unpadded:
  assumes "prefix stk" "prefixOf w c = (p, prefixLen)" "maxLen \<le> int (length p)"
  shows "paddedPrefix w stk maxLen c = Inr p"
  using assms by (simp add: paddedPrefix_def)

text \<open>
  C2. The prefix written is not always padded to the longest visual length. With the
  two clients of the world above the longest visual length is 17 and that of the
  local client is 14; its prefix is 18 bytes long with the escape code, which is not
  less than 17, so the prefix handed to the copier of its standard output is its own
  prefix with no space in front.
\<close>

theorem prefix_not_padded:
  "fst (drainClients demoWorld [demoLocal, demoRemote] 0 [] []) = 17 \<and>
   prefixOf demoWorld demoLocal = (ResetColor @ ''u@localhost | '', 14) \<and>
   paddedPrefix demoWorld demoStk 17 demoLocal = Inr (ResetColor @ ''u@localhost | '') \<and>
   EvGo (CopyStdout demoLocal (ResetColor @ ''u@localhost | ''))
     \<in> set (trace (stateOf (startClients demoWorld demoStk 17
                   (demoTask ''echo hello'' [demoLocal, demoRemote]) [demoLocal, demoRemote] st0)))"
  by (simp add: paddedPrefix_def Let_def demo_defs)

subsection \<open>Waiting for the clients\<close>

lemma waiter_fails:
  assumes "waitResult w c task = Some err" "paddedPrefix w stk maxLen c = Inr pre"
  shows "waiter w stk maxLen task c =
           ([EvWait c, EvStderrLine pre err],
            Some (Exited (case err of ExitError status \<Rightarrow> if status \<noteq> 15 then status else 1
                          | New m \<Rightarrow> 1 | Wrap e m \<Rightarrow> 1 | EOF \<Rightarrow> 1)))"
  using assms by (cases err) (simp_all add: waiter_def)

lemma waiter_succeeds:
  "snd (waiter w stk maxLen task c) = None \<longleftrightarrow> waitResult w c task = None"
  by (simp add: waiter_def split: option.splits sum.splits error.splits)

lemma awaitClients_first_failure:
  assumes "sorted (map f cs)"
      and "c \<in> set cs"
      and "waiter w stk maxLen task c = (evs, Some out)"
      and "\<forall>d \<in> set cs. snd (waiter w stk maxLen task d) \<noteq> None \<longrightarrow> d = c \<or> f c < (f d :: nat)"
  shows "\<exists>st'. awaitClients w stk maxLen task cs st = Stop out st'"
  using assms
proof (induction cs arbitrary: st)
  case Nil
  then show ?case by simp
next
  case (Cons x xs)
  obtain evx rx where wx: "waiter w stk maxLen task x = (evx, rx)"
    by (cases "waiter w stk maxLen task x")
  show ?case
  proof (cases rx)
    case (Some outx)
    have "x = c \<or> f c < f x" using Cons.prems(4) wx Some by simp
    moreover have "f x \<le> f c" using Cons.prems(1,2) by auto
    ultimately have "x = c" by auto
    then show ?thesis using wx Some Cons.prems(3) by simp
  next
    case None
    then have "x \<noteq> c" using wx Cons.prems(3) by auto
    then have "c \<in> set xs" using Cons.prems(2) by simp
    moreover have "sorted (map f xs)" using Cons.prems(1) by simp
    moreover have "\<forall>d \<in> set xs. snd (waiter w stk maxLen task d) \<noteq> None \<longrightarrow> d = c \<or> f c < f d"
      using Cons.prems(4) by simp
    ultimately obtain st' where "awaitClients w stk maxLen task xs (emits evx st) = Stop out st'"
      using Cons.IH [of "emits evx st"] Cons.prems(3) by blast
    then show ?thesis using wx None by simp
  qed
qed

text \<open>One task: the first client whose \<^verbatim>\<open>Wait\<close> fails ends it with \<^verbatim>\<open>os.Exit\<close>.\<close>

lemma runTask_first_failure:
  assumes "startClients w stk maxLen task (Clients task) st = Continue writers st1"
      and "c \<in> set (Clients task)"
      and "waitResult w c task = Some err"
      and "\<forall>d \<in> set (Clients task). waitResult w d task \<noteq> None \<longrightarrow>
             d = c \<or> waitRank w task c < waitRank w task d"
      and "snd (prefixOf w c) \<le> maxLen"
  shows "\<exists>st'. runTask w stk maxLen clients task st =
           Stop (Exited (case err of ExitError status \<Rightarrow> if status \<noteq> 15 then status else 1
                         | New m \<Rightarrow> 1 | Wrap e m \<Rightarrow> 1 | EOF \<Rightarrow> 1)) st'"
proof -
  obtain pre where pre: "paddedPrefix w stk maxLen c = Inr pre"
    using paddedPrefix_ok [OF assms(5)] by blast
  note wf = waiter_fails [OF assms(3) pre]
  have srt: "sorted (map (waitRank w task) (waitOrder w task))"
    by (simp add: waitOrder_def)
  have mem: "c \<in> set (waitOrder w task)"
    using assms(2) by (simp add: waitOrder_def)
  have first: "\<forall>d \<in> set (waitOrder w task). snd (waiter w stk maxLen task d) \<noteq> None \<longrightarrow>
                 d = c \<or> waitRank w task c < waitRank w task d"
    using assms(4) by (simp add: waitOrder_def waiter_succeeds)
  show ?thesis
    using awaitClients_first_failure [OF srt mem wf first] assms(1)
    by (simp add: runTask_def Let_def)
qed

subsection \<open>From Run to a task\<close>

lemma runTasks_append:
  "runTasks w stk maxLen clients (xs @ ys) st =
     (case runTasks w stk maxLen clients xs st of
        Stop out s \<Rightarrow> Stop out s
      | Continue u s \<Rightarrow> runTasks w stk maxLen clients ys s)"
  by (induction xs arbitrary: st) (simp_all split: step.splits)

lemma runCommands_append:
  "runCommands w stk maxLen clients env (xs @ ys) st =
     (case runCommands w stk maxLen clients env xs st of
        Stop out s \<Rightarrow> Stop out s
      | Continue u s \<Rightarrow> runCommands w stk maxLen clients env ys s)"
  by (induction xs arbitrary: st) (simp_all add: Let_def split: step.splits sum.splits)

text \<open>
  A task of a run: the signers are resolved, the bastion (if any) and every host are
  connected, the commands before \<open>cmd\<close> and the tasks of \<open>cmd\<close> before
  \<open>task\<close> have run to their end. Then \<^verbatim>\<open>Run\<close> runs \<open>task\<close> with the
  connected clients and the longest prefix length among them, and goes on with the
  tasks and commands that follow unless the task ends the run.
\<close>

lemma Run_at_task:
  assumes "commands = cmds1 @ cmd # cmds2"
      and "resolveSigners w network st = Continue () st1"
      and "connectBastion w stk network st1 = Continue bastion st2"
      and "connectHosts w stk network (asExport w envVars) bastion st2 = Continue (clients, []) st3"
      and "maxLen = fst (drainClients w clients 0 [] [])"
      and "runCommands w stk maxLen clients (asExport w envVars) cmds1 st3 = Continue () st4"
      and "createTasks w cmd clients (asExport w envVars) = Inr (tasks1 @ task # tasks2)"
      and "runTasks w stk maxLen clients tasks1 (emit (EvCreateTasks cmd) st4) = Continue () st5"
  shows "Run w stk network envVars commands st =
           finish (filter isSSHClient clients)
             (case runTask w stk maxLen clients task st5 of
                Stop out s \<Rightarrow> Stop out s
              | Continue u s \<Rightarrow>
                  (case runTasks w stk maxLen clients tasks2 s of
                     Stop out s' \<Rightarrow> Stop out s'
                   | Continue u' s' \<Rightarrow> runCommands w stk maxLen clients (asExport w envVars) cmds2 s'))"
proof -
  let ?env = "asExport w envVars"
  have dr: "drainClients w clients 0 [] [] = (maxLen, clients, filter isSSHClient clients)"
    using assms(5) by (simp add: drainClients_result)
  have ne: "commands \<noteq> []" using assms(1) by simp
  have run: "Run w stk network envVars commands st =
               finish (filter isSSHClient clients) (runCommands w stk maxLen clients ?env commands st3)"
    using ne assms(2,3,4) dr by (simp add: Run_def)
  have ts: "runTasks w stk maxLen clients (tasks1 @ task # tasks2) (emit (EvCreateTasks cmd) st4) =
              (case runTask w stk maxLen clients task st5 of
                 Stop out s \<Rightarrow> Stop out s
               | Continue u s \<Rightarrow> runTasks w stk maxLen clients tasks2 s)"
    using assms(8) by (simp add: runTasks_append)
  have cs: "runCommands w stk maxLen clients ?env commands st3 =
              (case runTasks w stk maxLen clients (tasks1 @ task # tasks2) (emit (EvCreateTasks cmd) st4) of
                 Stop out s \<Rightarrow> Stop out s
               | Continue u s \<Rightarrow> runCommands w stk maxLen clients ?env cmds2 s)"
    using assms(1,6,7) by (simp add: runCommands_append Let_def)
  show ?thesis
    unfolding run cs ts by (simp split: step.splits)
qed

text \<open>
  At such a task, the first of its clients whose \<^verbatim>\<open>Wait\<close> fails makes
  \<^verbatim>\<open>Run\<close> end in \<^verbatim>\<open>os.Exit\<close>; the deferred calls do not run.
\<close>

lemma Run_exits:
  assumes "commands = cmds1 @ cmd # cmds2"
      and "resolveSigners w network st = Continue () st1"
      and "connectBastion w stk network st1 = Continue bastion st2"
      and "connectHosts w stk network (asExport w envVars) bastion st2 = Continue (clients, []) st3"
      and "maxLen = fst (drainClients w clients 0 [] [])"
      and "runCommands w stk maxLen clients (asExport w envVars) cmds1 st3 = Continue () st4"
      and "createTasks w cmd clients (asExport w envVars) = Inr (tasks1 @ task # tasks2)"
      and "runTasks w stk maxLen clients tasks1 (emit (EvCreateTasks cmd) st4) = Continue () st5"
      and "startClients w stk maxLen task (Clients task) st5 = Continue writers st6"
      and "c \<in> set (Clients task)"
      and "c \<in> set clients"
      and "waitResult w c task = Some err"
      and "\<forall>d \<in> set (Clients task). waitResult w d task \<noteq> None \<longrightarrow>
             d = c \<or> waitRank w task c < waitRank w task d"
  shows "fst (Run w stk network envVars commands st) =
           Exited (case err of ExitError status \<Rightarrow> if status \<noteq> 15 then status else 1
                   | New m \<Rightarrow> 1 | Wrap e m \<Rightarrow> 1 | EOF \<Rightarrow> 1)"
proof -
  have "snd (prefixOf w c) \<le> maxLen"
    using assms(5,11) by (simp add: drainClients_maxLen)
  then obtain st' where
    "runTask w stk maxLen clients task st5 =
       Stop (Exited (case err of ExitError status \<Rightarrow> if status \<noteq> 15 then status else 1
                     | New m \<Rightarrow> 1 | Wrap e m \<Rightarrow> 1 | EOF \<Rightarrow> 1)) st'"
    using runTask_first_failure [OF assms(9,10,12,13)] by blast
  then show ?thesis
    using Run_at_task [OF assms(1-8)] by (simp add: finish_def)
qed

lemma exitStatus_byte: "0 \<le> code \<Longrightarrow> code < 256 \<Longrightarrow> exitStatus code = code"
  by (simp add: exitStatus_def)

subsection \<open>The run of the world above\<close>

lemma demo_env: "asExport demoWorld [] = []"
  by (simp add: demoWorld_def)

lemma demo_signers:
  "resolveSigners demoWorld demoNetwork st0 =
     Continue () \<lparr>publicKeysSigners = [''agent key'', ''deploy key''],
       trace = [EvDial ''/tmp/agent.sock'', EvAgentSigners, EvReadFile ''/home/u/.ssh/deploy'',
                EvParsePrivateKey ''ENCRYPTED KEY'',
                EvParsePrivateKeyWithPassphrase ''ENCRYPTED KEY'' ''secret'']\<rparr>"
  by (simp add: resolveSigners_def addPublicKeySigner_def ResolvePath_def Let_def emit_def
        appendSigner_def demoWorld_def demoNetwork_def st0_def)

lemma demo_bastion: "connectBastion demoWorld demoStk demoNetwork st = Continue None st"
  by (simp add: connectBastion_def demoNetwork_def)

lemma demo_hosts:
  "connectHosts demoWorld demoStk demoNetwork (asExport demoWorld []) None st =
     Continue ([demoLocal, demoRemote], []) (emits [EvConnect demoLocal, EvConnect demoRemote] st)"
  by (simp add: demo_env demo_connectHosts)

lemma demo_maxLen: "17 = fst (drainClients demoWorld [demoLocal, demoRemote] 0 [] [])"
  by (simp add: demoWorld_def demoPrefix_def demoLocal_def demoRemote_def)

lemma demo_createTasks:
  "cmd \<noteq> ''cat'' \<Longrightarrow>
   createTasks demoWorld cmd [demoLocal, demoRemote] (asExport demoWorld []) =
     Inr ([] @ demoTask cmd [demoLocal, demoRemote] # [])"
  by (simp add: demoWorld_def demoTask_def)

lemma demo_createTasks_cat:
  "createTasks demoWorld ''cat'' [demoLocal, demoRemote] (asExport demoWorld []) =
     Inr ([] @ demoTask ''cat'' [demoRemote] # [])"
  by (simp add: demoWorld_def demoTask_def demoLocal_def demoRemote_def)

lemma demo_startClients:
  "\<exists>st1. startClients demoWorld demoStk 17 (demoTask cmd [demoLocal, demoRemote])
            (Clients (demoTask cmd [demoLocal, demoRemote])) st = Continue [demoLocal, demoRemote] st1"
  by (simp add: paddedPrefix_def Let_def demoWorld_def demoStk_def demoTask_def demoLocal_def
        demoRemote_def demoPrefix_def ResetColor_def)

lemma demo_startRemote:
  "\<exists>st1. startClients demoWorld demoStk 17 (demoTask cmd [demoRemote])
            (Clients (demoTask cmd [demoRemote])) st = Continue [demoRemote] st1"
  by (simp add: paddedPrefix_def Let_def demoWorld_def demoStk_def demoTask_def
        demoRemote_def demoPrefix_def ResetColor_def)

lemma demo_wait:
  "waitResult demoWorld demoRemote (demoTask cmd cs) =
     Some (ExitError (if cmd = ''kill -TERM $$'' then 15 else if cmd = ''exit 271'' then 271 else 2))"
  by (simp add: demoWorld_def demoWait_def demoRemote_def demoTask_def)

lemma demo_first:
  "\<forall>d \<in> set (Clients (demoTask cmd [demoLocal, demoRemote])).
      waitResult demoWorld d (demoTask cmd [demoLocal, demoRemote]) \<noteq> None \<longrightarrow>
      d = demoRemote \<or> waitRank demoWorld (demoTask cmd [demoLocal, demoRemote]) demoRemote
                         < waitRank demoWorld (demoTask cmd [demoLocal, demoRemote]) d"
  by (simp add: demoTask_def demoWorld_def demoWait_def demoLocal_def)

lemma demo_bound: "demoRemote \<in> set (Clients (demoTask cmd [demoLocal, demoRemote]))"
  by (simp add: demoTask_def)

lemma demo_exit:
  assumes "cmd \<noteq> ''cat''"
  shows "fst (Run demoWorld demoStk demoNetwork [] [cmd] st0) =
           Exited (if cmd = ''kill -TERM $$'' then 1 else if cmd = ''exit 271'' then 271 else 2)"
proof -
  have c: "[cmd] = [] @ cmd # []" by simp
  have m: "demoRemote \<in> set [demoLocal, demoRemote]" by simp
  obtain s6 where s: "startClients demoWorld demoStk 17 (demoTask cmd [demoLocal, demoRemote])
      (Clients (demoTask cmd [demoLocal, demoRemote]))
      (emit (EvCreateTasks cmd)
         (emits [EvConnect demoLocal, EvConnect demoRemote]
            \<lparr>publicKeysSigners = [''agent key'', ''deploy key''],
             trace = [EvDial ''/tmp/agent.sock'', EvAgentSigners, EvReadFile ''/home/u/.ssh/deploy'',
                      EvParsePrivateKey ''ENCRYPTED KEY'',
                      EvParsePrivateKeyWithPassphrase ''ENCRYPTED KEY'' ''secret'']\<rparr>))
      = Continue [demoLocal, demoRemote] s6"
    using demo_startClients by blast
  show ?thesis
    using Run_exits [OF c demo_signers demo_bastion demo_hosts demo_maxLen runCommands.simps(1)
            demo_createTasks [OF assms] runTasks.simps(1) s demo_bound m demo_wait demo_first]
    by simp
qed

subsection \<open>The exit status\<close>

text \<open>
  C1, as amended. Let a task of a run be started on all its clients, and let \<open>c\<close>, a
  client of the run, be the first of the task's clients whose \<^verbatim>\<open>Wait\<close> returns
  an error. Then \<^verbatim>\<open>Run\<close> ends in \<^verbatim>\<open>os.Exit\<close>: called with the status of the
  error when it is an \<^verbatim>\<open>*ssh.ExitError\<close> whose status is not 15, and with 1 when
  the status is 15 or the error is of another kind. The process so ends with status 1
  in the second case, and in the first with the low eight bits of the remote status:
  with exactly the remote status when that lies between 1 and 255.
\<close>

theorem fail_fast_exit_status:
  assumes "commands = cmds1 @ cmd # cmds2"
      and "resolveSigners w network st = Continue () st1"
      and "connectBastion w stk network st1 = Continue bastion st2"
      and "connectHosts w stk network (asExport w envVars) bastion st2 = Continue (clients, []) st3"
      and "maxLen = fst (drainClients w clients 0 [] [])"
      and "runCommands w stk maxLen clients (asExport w envVars) cmds1 st3 = Continue () st4"
      and "createTasks w cmd clients (asExport w envVars) = Inr (tasks1 @ task # tasks2)"
      and "runTasks w stk maxLen clients tasks1 (emit (EvCreateTasks cmd) st4) = Continue () st5"
      and "startClients w stk maxLen task (Clients task) st5 = Continue writers st6"
      and "c \<in> set (Clients task)"
      and "c \<in> set clients"
      and "waitResult w c task = Some err"
      and "\<forall>d \<in> set (Clients task). waitResult w d task \<noteq> None \<longrightarrow>
             d = c \<or> waitRank w task c < waitRank w task d"
  shows "fst (Run w stk network envVars commands st) =
           Exited (case err of ExitError status \<Rightarrow> if status \<noteq> 15 then status else 1
                   | New m \<Rightarrow> 1 | Wrap e m \<Rightarrow> 1 | EOF \<Rightarrow> 1) \<and>
         exitStatus (case err of ExitError status \<Rightarrow> if status \<noteq> 15 then status else 1
                     | New m \<Rightarrow> 1 | Wrap e m \<Rightarrow> 1 | EOF \<Rightarrow> 1) =
           (case err of
              ExitError status \<Rightarrow>
                if status = 15 then 1
                else if 0 < status \<and> status < 256 then status
                else status mod 256
            | New m \<Rightarrow> 1 | Wrap e m \<Rightarrow> 1 | EOF \<Rightarrow> 1)"
proof
  show "fst (Run w stk network envVars commands st) =
           Exited (case err of ExitError status \<Rightarrow> if status \<noteq> 15 then status else 1
                   | New m \<Rightarrow> 1 | Wrap e m \<Rightarrow> 1 | EOF \<Rightarrow> 1)"
    by (rule Run_exits [OF assms])
next
  show "exitStatus (case err of ExitError status \<Rightarrow> if status \<noteq> 15 then status else 1
                     | New m \<Rightarrow> 1 | Wrap e m \<Rightarrow> 1 | EOF \<Rightarrow> 1) =
           (case err of
              ExitError status \<Rightarrow>
                if status = 15 then 1
                else if 0 < status \<and> status < 256 then status
                else status mod 256
            | New m \<Rightarrow> 1 | Wrap e m \<Rightarrow> 1 | EOF \<Rightarrow> 1)"
    by (cases err) (simp_all add: exitStatus_def)
qed

theorem fail_fast_exit_status_witness:
  "fst (Run demoWorld demoStk demoNetwork [] [''exit 2''] st0) = Exited 2 \<and> exitStatus 2 = 2 \<and>
   fst (Run demoWorld demoStk demoNetwork [] [''kill -TERM $$''] st0) = Exited 1 \<and> exitStatus 1 = 1"
proof -
  have c: "[cmd] = [] @ cmd # []" for cmd :: Command by simp
  have m: "demoRemote \<in> set [demoLocal, demoRemote]" by simp
  have n1: "''exit 2'' \<noteq> ''cat''" and n2: "''kill -TERM $$'' \<noteq> ''cat''" by simp_all
  obtain s1 where s1: "startClients demoWorld demoStk 17 (demoTask ''exit 2'' [demoLocal, demoRemote])
      (Clients (demoTask ''exit 2'' [demoLocal, demoRemote]))
      (emit (EvCreateTasks ''exit 2'')
         (emits [EvConnect demoLocal, EvConnect demoRemote]
            \<lparr>publicKeysSigners = [''agent key'', ''deploy key''],
             trace = [EvDial ''/tmp/agent.sock'', EvAgentSigners, EvReadFile ''/home/u/.ssh/deploy'',
                      EvParsePrivateKey ''ENCRYPTED KEY'',
                      EvParsePrivateKeyWithPassphrase ''ENCRYPTED KEY'' ''secret'']\<rparr>))
      = Continue [demoLocal, demoRemote] s1"
    using demo_startClients by blast
  obtain s2 where s2: "startClients demoWorld demoStk 17 (demoTask ''kill -TERM $$'' [demoLocal, demoRemote])
      (Clients (demoTask ''kill -TERM $$'' [demoLocal, demoRemote]))
      (emit (EvCreateTasks ''kill -TERM $$'')
         (emits [EvConnect demoLocal, EvConnect demoRemote]
            \<lparr>publicKeysSigners = [''agent key'', ''deploy key''],
             trace = [EvDial ''/tmp/agent.sock'', EvAgentSigners, EvReadFile ''/home/u/.ssh/deploy'',
                      EvParsePrivateKey ''ENCRYPTED KEY'',
                      EvParsePrivateKeyWithPassphrase ''ENCRYPTED KEY'' ''secret'']\<rparr>))
      = Continue [demoLocal, demoRemote] s2"
    using demo_startClients by blast
  show ?thesis
    using fail_fast_exit_status [OF c demo_signers demo_bastion demo_hosts demo_maxLen runCommands.simps(1)
            demo_createTasks [OF n1] runTasks.simps(1) s1 demo_bound m demo_wait demo_first]
          fail_fast_exit_status [OF c demo_signers demo_bastion demo_hosts demo_maxLen runCommands.simps(1)
            demo_createTasks [OF n2] runTasks.simps(1) s2 demo_bound m demo_wait demo_first]
    by simp
qed

text \<open>
  C1, as stated, fails: when the server reports the status 271 for the command run on
  \<^verbatim>\<open>worker1\<close>, \<^verbatim>\<open>Run\<close> calls \<^verbatim>\<open>os.Exit(271)\<close> and the process ends with
  the status 15, not 271.
\<close>

theorem exit_status_271_ends_as_15:
  "waitResult demoWorld demoRemote (demoTask ''exit 271'' [demoLocal, demoRemote]) =
     Some (ExitError 271) \<and>
   fst (Run demoWorld demoStk demoNetwork [] [''exit 271''] st0) = Exited 271 \<and>
   exitStatus 271 = 15"
proof -
  have n: "''exit 271'' \<noteq> ''cat''" by simp
  show ?thesis
    using demo_exit [OF n] demo_wait [of "''exit 271''" "[demoLocal, demoRemote]"]
    by (simp add: exitStatus_def)
qed

subsection \<open>The input of a task\<close>

lemma startClients_writers:
  "startClients w stk maxLen task cs st = Continue writers st1 \<Longrightarrow> writers = cs"
proof (induction cs arbitrary: st writers)
  case Nil
  then show ?case by simp
next
  case (Cons c cs)
  then show ?case
    by (auto simp: Let_def split: sum.splits option.splits step.splits)
qed

text \<open>The trace only grows.\<close>

lemma startClients_trace:
  "set (trace st) \<subseteq> set (trace (stateOf (startClients w stk maxLen task cs st)))"
proof (induction cs arbitrary: st)
  case Nil
  show ?case by simp
next
  case (Cons c cs)
  show ?case
  proof (cases "paddedPrefix w stk maxLen c")
    case (Inl p)
    then show ?thesis by simp
  next
    case (Inr pre)
    show ?thesis
    proof (cases "runResult w c task")
      case (Some err)
      then show ?thesis using Inr by (auto simp: Let_def)
    next
      case None
      let ?st = "emit (EvGo (CopyStderr c pre)) (emit (EvGo (CopyStdout c pre)) (emit (EvRun c task) st))"
      have "set (trace st) \<subseteq> set (trace ?st)" by auto
      also have "\<dots> \<subseteq> set (trace (stateOf (startClients w stk maxLen task cs ?st)))"
        by (rule Cons.IH)
      finally show ?thesis using Inr None
        by (cases "startClients w stk maxLen task cs ?st") (simp_all add: Let_def)
    qed
  qed
qed

lemma awaitClients_trace:
  "set (trace st) \<subseteq> set (trace (stateOf (awaitClients w stk maxLen task cs st)))"
proof (induction cs arbitrary: st)
  case Nil
  show ?case by simp
next
  case (Cons c cs)
  obtain evs r where wc: "waiter w stk maxLen task c = (evs, r)"
    by (cases "waiter w stk maxLen task c")
  show ?case
  proof (cases r)
    case None
    then show ?thesis using wc Cons.IH [of "emits evs st"] by auto
  next
    case (Some out)
    then show ?thesis using wc by auto
  qed
qed

lemma runTask_trace:
  "set (trace st) \<subseteq> set (trace (stateOf (runTask w stk maxLen clients task st)))"
proof (cases "startClients w stk maxLen task (Clients task) st")
  case (Stop out st1)
  then show ?thesis
    using startClients_trace [of st w stk maxLen task "Clients task"] by (simp add: runTask_def)
next
  case (Continue writers st1)
  let ?st4 = "emits (map (\<lambda>c. EvGo (Waiter c)) (Clients task))
                (emit (EvGo (SignalRelay (Clients task)))
                   (case Input task of
                      None \<Rightarrow> st1
                    | Some inp \<Rightarrow> emit (EvGo (CopyStdin inp writers clients)) st1))"
  have "set (trace st) \<subseteq> set (trace st1)"
    using startClients_trace [of st w stk maxLen task "Clients task"] Continue by simp
  also have "\<dots> \<subseteq> set (trace ?st4)"
    by (cases "Input task") auto
  also have "\<dots> \<subseteq> set (trace (stateOf (awaitClients w stk maxLen task (waitOrder w task) ?st4)))"
    by (rule awaitClients_trace)
  finally show ?thesis using Continue by (simp add: runTask_def Let_def)
qed

lemma runTasks_trace:
  "set (trace st) \<subseteq> set (trace (stateOf (runTasks w stk maxLen clients tasks st)))"
proof (induction tasks arbitrary: st)
  case Nil
  show ?case by simp
next
  case (Cons task tasks)
  show ?case
  proof (cases "runTask w stk maxLen clients task st")
    case (Stop out s)
    then show ?thesis using runTask_trace [of st w stk maxLen clients task] by simp
  next
    case (Continue u s)
    then have "set (trace st) \<subseteq> set (trace s)"
      using runTask_trace [of st w stk maxLen clients task] by simp
    also have "\<dots> \<subseteq> set (trace (stateOf (runTasks w stk maxLen clients tasks s)))"
      by (rule Cons.IH)
    finally show ?thesis using Continue by simp
  qed
qed

lemma runCommands_trace:
  "set (trace st) \<subseteq> set (trace (stateOf (runCommands w stk maxLen clients env cmds st)))"
proof (induction cmds arbitrary: st)
  case Nil
  show ?case by simp
next
  case (Cons cmd cmds)
  let ?st1 = "emit (EvCreateTasks cmd) st"
  have a: "set (trace st) \<subseteq> set (trace ?st1)" by auto
  show ?case
  proof (cases "createTasks w cmd clients env")
    case (Inl err)
    then show ?thesis using a by (simp add: Let_def)
  next
    case (Inr tasks)
    show ?thesis
    proof (cases "runTasks w stk maxLen clients tasks ?st1")
      case (Stop out s)
      then show ?thesis
        using a runTasks_trace [of ?st1 w stk maxLen clients tasks] Inr by (auto simp: Let_def)
    next
      case (Continue u s)
      have "set (trace st) \<subseteq> set (trace ?st1)" by (rule a)
      also have "\<dots> \<subseteq> set (trace s)"
        using runTasks_trace [of ?st1 w stk maxLen clients tasks] Continue by simp
      also have "\<dots> \<subseteq> set (trace (stateOf (runCommands w stk maxLen clients env cmds s)))"
        by (rule Cons.IH)
      finally show ?thesis using Inr Continue by (simp add: Let_def)
    qed
  qed
qed

lemma finish_trace: "set (trace (stateOf r)) \<subseteq> set (trace (snd (finish deferred r)))"
proof (cases r)
  case (Continue u s)
  then show ?thesis by (auto simp: finish_def)
next
  case (Stop out s)
  then show ?thesis by (cases out) (auto simp: finish_def)
qed

lemma count_list_distinct:
  "distinct xs \<Longrightarrow> count_list xs x = (if x \<in> set xs then 1 else 0)"
  by (induction xs) auto

lemma count_WriteClose:
  "count_list (copyStdin w inp writers clients) (EvWriteClose c) = count_list clients c"
proof -
  have "count_list (map EvWriteClose clients) (EvWriteClose c) = count_list clients c"
    by (rule count_list_map_conv) (simp add: inj_def)
  then show ?thesis
    by (simp add: copyStdin_def split: option.splits)
qed

text \<open>A task with an input, once started, starts the input copier it is given the clients for.\<close>

lemma runTask_starts_copier:
  assumes "startClients w stk maxLen task (Clients task) st = Continue writers st1"
      and "Input task = Some inp"
  shows "EvGo (CopyStdin inp (Clients task) clients)
           \<in> set (trace (stateOf (runTask w stk maxLen clients task st)))"
proof -
  have wr: "writers = Clients task"
    using assms(1) by (rule startClients_writers)
  let ?st4 = "emits (map (\<lambda>c. EvGo (Waiter c)) (Clients task))
                (emit (EvGo (SignalRelay (Clients task)))
                   (emit (EvGo (CopyStdin inp (Clients task) clients)) st1))"
  have rt: "runTask w stk maxLen clients task st =
              awaitClients w stk maxLen task (waitOrder w task) ?st4"
    using assms wr by (simp add: runTask_def)
  have "EvGo (CopyStdin inp (Clients task) clients) \<in> set (trace ?st4)"
    by simp
  then show ?thesis
    using awaitClients_trace [of ?st4 w stk maxLen task "waitOrder w task"] rt by auto
qed

text \<open>
  C3. For every task of a run that has an input and is started on its clients,
  \<^verbatim>\<open>Run\<close> starts the input copier with the connected clients of the run; once
  the copy has ended, with or without an error, the copier calls \<^verbatim>\<open>WriteClose\<close>
  exactly once on every connected client of the run and on no other, whichever
  clients the task is bound to.
\<close>

theorem stdin_close_scope:
  assumes "commands = cmds1 @ cmd # cmds2"
      and "resolveSigners w network st = Continue () st1"
      and "connectBastion w stk network st1 = Continue bastion st2"
      and "connectHosts w stk network (asExport w envVars) bastion st2 = Continue (clients, []) st3"
      and "maxLen = fst (drainClients w clients 0 [] [])"
      and "runCommands w stk maxLen clients (asExport w envVars) cmds1 st3 = Continue () st4"
      and "createTasks w cmd clients (asExport w envVars) = Inr (tasks1 @ task # tasks2)"
      and "runTasks w stk maxLen clients tasks1 (emit (EvCreateTasks cmd) st4) = Continue () st5"
      and "startClients w stk maxLen task (Clients task) st5 = Continue writers st6"
      and "Input task = Some inp"
  shows "EvGo (CopyStdin inp (Clients task) clients)
           \<in> set (trace (snd (Run w stk network envVars commands st))) \<and>
         (\<forall>c. count_list (copyStdin w inp (Clients task) clients) (EvWriteClose c) =
                (if c \<in> set clients then 1 else 0))"
proof
  let ?go = "EvGo (CopyStdin inp (Clients task) clients)"
  let ?env = "asExport w envVars"
  let ?r = "case runTask w stk maxLen clients task st5 of
                Stop out s \<Rightarrow> Stop out s
              | Continue u s \<Rightarrow>
                  (case runTasks w stk maxLen clients tasks2 s of
                     Stop out s' \<Rightarrow> Stop out s'
                   | Continue u' s' \<Rightarrow> runCommands w stk maxLen clients ?env cmds2 s')"
  have go: "?go \<in> set (trace (stateOf (runTask w stk maxLen clients task st5)))"
    using assms(9,10) by (rule runTask_starts_copier)
  have "set (trace (stateOf (runTask w stk maxLen clients task st5))) \<subseteq> set (trace (stateOf ?r))"
  proof (cases "runTask w stk maxLen clients task st5")
    case (Stop out s)
    then show ?thesis by simp
  next
    case (Continue u s)
    note rt = Continue
    show ?thesis
    proof (cases "runTasks w stk maxLen clients tasks2 s")
      case (Stop out s')
      then show ?thesis using rt runTasks_trace [of s w stk maxLen clients tasks2] by simp
    next
      case (Continue u' s')
      have "set (trace s) \<subseteq> set (trace s')"
        using runTasks_trace [of s w stk maxLen clients tasks2] Continue by simp
      also have "\<dots> \<subseteq> set (trace (stateOf (runCommands w stk maxLen clients ?env cmds2 s')))"
        by (rule runCommands_trace)
      finally show ?thesis using rt Continue by simp
    qed
  qed
  then have "?go \<in> set (trace (stateOf ?r))" using go by blast
  then have "?go \<in> set (trace (snd (finish (filter isSSHClient clients) ?r)))"
    using finish_trace [of ?r "filter isSSHClient clients"] by blast
  then show "?go \<in> set (trace (snd (Run w stk network envVars commands st)))"
    using Run_at_task [OF assms(1-8)] by simp
next
  have "distinct clients"
    using assms(4) by (rule connectHosts_distinct)
  then show "\<forall>c. count_list (copyStdin w inp (Clients task) clients) (EvWriteClose c) =
                (if c \<in> set clients then 1 else 0)"
    by (simp add: count_WriteClose count_list_distinct)
qed

theorem stdin_close_scope_witness:
  "EvGo (CopyStdin ''stdin'' [demoRemote] [demoLocal, demoRemote])
     \<in> set (trace (snd (Run demoWorld demoStk demoNetwork [] [''cat''] st0))) \<and>
   count_list (copyStdin demoWorld ''stdin'' [demoRemote] [demoLocal, demoRemote]) (EvWriteClose demoLocal) = 1 \<and>
   count_list (copyStdin demoWorld ''stdin'' [demoRemote] [demoLocal, demoRemote]) (EvWriteClose demoRemote) = 1"
proof -
  have c: "[''cat''] = [] @ ''cat'' # []" by simp
  obtain s1 where s1: "startClients demoWorld demoStk 17 (demoTask ''cat'' [demoRemote])
      (Clients (demoTask ''cat'' [demoRemote]))
      (emit (EvCreateTasks ''cat'')
         (emits [EvConnect demoLocal, EvConnect demoRemote]
            \<lparr>publicKeysSigners = [''agent key'', ''deploy key''],
             trace = [EvDial ''/tmp/agent.sock'', EvAgentSigners, EvReadFile ''/home/u/.ssh/deploy'',
                      EvParsePrivateKey ''ENCRYPTED KEY'',
                      EvParsePrivateKeyWithPassphrase ''ENCRYPTED KEY'' ''secret'']\<rparr>))
      = Continue [demoRemote] s1"
    using demo_startRemote by blast
  have i: "Input (demoTask ''cat'' [demoRemote]) = Some ''stdin''" by (simp add: demoTask_def)
  have cl: "Clients (demoTask ''cat'' [demoRemote]) = [demoRemote]" by (simp add: demoTask_def)
  show ?thesis
    using stdin_close_scope [OF c demo_signers demo_bastion demo_hosts demo_maxLen runCommands.simps(1)
            demo_createTasks_cat runTasks.simps(1) s1 i]
    by (simp add: cl)
qed

end
